theory Spec2Isabelle
  imports Complex_Main "HOL-Library.Log_Nat"
begin

section \<open>The asynchronous load controller of the marble-race front end\<close>

text \<open>
  The development embeds \<^verbatim>\<open>MB_AsyncLoadOperation\<close> and \<^verbatim>\<open>MB_AsyncLoadController\<close> as
  they are written in the main script (the copy that writes the percentage element and
  clears the tip interval on completion), together with the small part of the JavaScript
  run time their behaviour depends on: property access on \<^verbatim>\<open>undefined\<close>,
  \<^verbatim>\<open>setInterval\<close>/\<^verbatim>\<open>clearInterval\<close>, a chain of \<^verbatim>\<open>Promise.then\<close>
  reactions, and the double-precision arithmetic behind \<^verbatim>\<open>Math.round\<close>.
\<close>

subsection \<open>Values of the run time\<close>

text \<open>A DOM element handed to the controller; only its presence matters to the controller.\<close>

datatype HTMLElement = Element string

text \<open>What a call of a work function hands back: nothing, or a promise that is still pending.\<close>

datatype js_value = Undefined | PendingPromise

datatype js_error = TypeError string | Error string

text \<open>
  The application state the work functions act on is a parameter \<open>'u\<close>. A call either
  returns or throws; in both cases the effects it had on the application state remain.
\<close>

datatype 'u completion = Return js_value 'u | Throw js_error 'u

text \<open>
  The properties \<^verbatim>\<open>text\<close> and \<^verbatim>\<open>func\<close> of an operation; they carry a prefix here
  because the first is a keyword of the theory language.
\<close>

record 'u MB_AsyncLoadOperation =
  op_text :: string
  op_func :: "'u \<Rightarrow> 'u completion"

text \<open>The options object given to the constructor; a property can be missing.\<close>

record MB_Options =
  opt_loadingScreen :: "HTMLElement option"
  opt_loadingText :: "HTMLElement option"
  opt_loadingPercentage :: "HTMLElement option"
  opt_loadingProgressBar :: "HTMLElement option"
  opt_loadingTips :: "HTMLElement option"
  opt_tips :: "string list option"

record MB_AsyncLoadController =
  loadingScreen :: "HTMLElement option"
  loadingText :: "HTMLElement option"
  loadingPercentage :: "HTMLElement option"
  loadingProgressBar :: "HTMLElement option"
  loadingTips :: "HTMLElement option"
  tips :: "string list"

text \<open>
  The constructor copies the five element properties and defaults \<^verbatim>\<open>tips\<close> to the empty
  array (\<^verbatim>\<open>options.tips || []\<close>; an array, even an empty one, is truthy). It has no
  statement that can throw on an options object, so its result is always on the right.
\<close>

definition constructor :: "MB_Options \<Rightarrow> js_error + MB_AsyncLoadController" where
  "constructor options = Inr \<lparr>
     loadingScreen = opt_loadingScreen options,
     loadingText = opt_loadingText options,
     loadingPercentage = opt_loadingPercentage options,
     loadingProgressBar = opt_loadingProgressBar options,
     loadingTips = opt_loadingTips options,
     tips = (case opt_tips options of None \<Rightarrow> [] | Some ts \<Rightarrow> ts) \<rparr>"

subsection \<open>Observable effects\<close>

text \<open>
  Every write to a sink, every timer operation and every call of caller code is logged, in
  the order in which it happens. The widths and percentages are logged as the integer in
  front of the \<^verbatim>\<open>%\<close> sign of the template string.
\<close>

datatype event =
    SetInterval nat nat
  | ClearInterval nat
  | TipsText string
  | ScreenShow
  | ScreenHide
  | LabelText string
  | BarWidth int
  | PctText int
  | Invoke nat
  | Callback

record 'u world =
  trace :: "event list"
  timers :: "nat list"
  last_timer :: nat
  app :: 'u

definition emit :: "event \<Rightarrow> 'u world \<Rightarrow> 'u world" where
  "emit e w = w\<lparr>trace := trace w @ [e]\<rparr>"

text \<open>
  \<^verbatim>\<open>setInterval\<close> returns a fresh handle, an integer greater than zero, and the timer is
  alive until \<^verbatim>\<open>clearInterval\<close> is called on the handle.
\<close>

definition setInterval :: "nat \<Rightarrow> 'u world \<Rightarrow> nat \<times> 'u world" where
  "setInterval ms w =
     (let h = Suc (last_timer w)
      in (h, emit (SetInterval h ms) (w\<lparr>timers := timers w @ [h], last_timer := h\<rparr>)))"

definition clearInterval :: "nat \<Rightarrow> 'u world \<Rightarrow> 'u world" where
  "clearInterval h w = emit (ClearInterval h) (w\<lparr>timers := removeAll h (timers w)\<rparr>)"

subsection \<open>Double-precision arithmetic\<close>

text \<open>
  JavaScript numbers are IEEE 754 binary64 values. The numbers that occur here are
  rationals of moderate size, so a double is modelled as the rational it denotes and each
  arithmetic operation as the exact operation followed by rounding to the nearest value with
  a 53-bit significand, ties to even. Subnormal numbers and overflow are out of reach of the
  quotients and products below and are left out.
\<close>

definition binade :: "rat \<Rightarrow> int" where
  "binade x =
     (let (p, q) = quotient_of \<bar>x\<bar>;
          d = bitlen p - bitlen q
      in if power_int 2 d \<le> \<bar>x\<bar> then d else d - 1)"

definition round_half_even :: "rat \<Rightarrow> int" where
  "round_half_even m =
     (let f = \<lfloor>m\<rfloor>; r = m - of_int f
      in if r < 1 / 2 then f
         else if 1 / 2 < r then f + 1
         else if even f then f else f + 1)"

definition double_round :: "rat \<Rightarrow> rat" where
  "double_round x =
     (if x = 0 then 0
      else let u = power_int 2 (binade x - 52)
           in of_int (round_half_even (x / u)) * u)"

definition double_div :: "rat \<Rightarrow> rat \<Rightarrow> rat" where
  "double_div a b = double_round (a / b)"

definition double_mul :: "rat \<Rightarrow> rat \<Rightarrow> rat" where
  "double_mul a b = double_round (a * b)"

text \<open>\<^verbatim>\<open>Math.round\<close>: the nearest integer, a tie going towards plus infinity.\<close>

definition Math_round :: "rat \<Rightarrow> int" where
  "Math_round x = \<lfloor>x + 1 / 2\<rfloor>"

definition Math_floor :: "rat \<Rightarrow> int" where
  "Math_floor x = \<lfloor>x\<rfloor>"

text \<open>
  \<^verbatim>\<open>Math.round((100 / funcList.length) * idx)\<close>. It is only evaluated inside a
  reaction of the \<^verbatim>\<open>reduce\<close>, so the length is positive there.
\<close>

definition percent :: "nat \<Rightarrow> nat \<Rightarrow> int" where
  "percent n idx = Math_round (double_mul (double_div 100 (of_nat n)) (of_nat idx))"

subsection \<open>Promises\<close>

text \<open>
  A promise of the chain is settled when the microtask queue is drained after the current
  task: it is modelled as the deferred computation that, from the world at that point,
  yields the world after its reactions have run, fulfilled or rejected. No reaction of the
  chain has a rejection handler, so \<^verbatim>\<open>then\<close> runs its reaction when the promise is
  fulfilled and passes a rejection on unchanged. A reaction that throws rejects the promise
  that \<^verbatim>\<open>then\<close> returned.
\<close>

datatype 'u settled = Fulfilled "'u world" | Rejected js_error "'u world"

type_synonym 'u promise = "'u world \<Rightarrow> 'u settled"

definition Promise_resolve :: "'u promise" where
  "Promise_resolve w = Fulfilled w"

definition promise_then :: "'u promise \<Rightarrow> ('u world \<Rightarrow> 'u settled) \<Rightarrow> 'u promise" where
  "promise_then p reaction w =
     (case p w of
        Fulfilled w' \<Rightarrow> reaction w'
      | Rejected e w' \<Rightarrow> Rejected e w')"

subsection \<open>\<^verbatim>\<open>initLoadOperation\<close>\<close>

text \<open>
  The reaction that \<^verbatim>\<open>reduce\<close> attaches for the step at index \<open>idx\<close>;
  \<^verbatim>\<open>reduce\<close> only supplies indices below the length of the list. Reading a property
  of a sink that is \<^verbatim>\<open>undefined\<close> throws a \<^verbatim>\<open>TypeError\<close>. The value that the work
  function returns is dropped: the arrow function has a block body without
  \<^verbatim>\<open>return\<close>.
\<close>

definition step_reaction ::
  "MB_AsyncLoadController \<Rightarrow> 'u MB_AsyncLoadOperation list \<Rightarrow> ('u \<Rightarrow> 'u completion) \<Rightarrow> nat
     \<Rightarrow> 'u world \<Rightarrow> 'u settled" where
  "step_reaction this funcList func idx w =
     (case loadingText this of
        None \<Rightarrow> Rejected (TypeError ''loadingText'') w
      | Some _ \<Rightarrow>
          let w1 = emit (LabelText (op_text (funcList ! idx))) w in
          (case loadingProgressBar this of
             None \<Rightarrow> Rejected (TypeError ''loadingProgressBar'') w1
           | Some _ \<Rightarrow>
               let w2 = emit (BarWidth (percent (length funcList) idx)) w1 in
               (case loadingPercentage this of
                  None \<Rightarrow> Rejected (TypeError ''loadingPercentage'') w2
                | Some _ \<Rightarrow>
                    let w3 = emit (PctText (percent (length funcList) idx)) w2;
                        w4 = emit (Invoke idx) w3
                    in (case func (app w4) of
                          Return v u \<Rightarrow> Fulfilled (w4\<lparr>app := u\<rparr>)
                        | Throw e u \<Rightarrow> Rejected e (w4\<lparr>app := u\<rparr>)))))"

text \<open>The reaction attached to the end of the chain.\<close>

definition final_reaction ::
  "MB_AsyncLoadController \<Rightarrow> nat option \<Rightarrow> ('u \<Rightarrow> 'u completion) option
     \<Rightarrow> 'u world \<Rightarrow> 'u settled" where
  "final_reaction this tipInterval callback w =
     (case loadingPercentage this of
        None \<Rightarrow> Rejected (TypeError ''loadingPercentage'') w
      | Some _ \<Rightarrow>
          let w1 = emit (PctText 100) w in
          (case loadingProgressBar this of
             None \<Rightarrow> Rejected (TypeError ''loadingProgressBar'') w1
           | Some _ \<Rightarrow>
               let w2 = emit (BarWidth 100) w1 in
               (case loadingScreen this of
                  None \<Rightarrow> Rejected (TypeError ''loadingScreen'') w2
                | Some _ \<Rightarrow>
                    let w3 = emit ScreenHide w2;
                        w4 = (if loadingTips this \<noteq> None then emit (TipsText '''') w3 else w3);
                        w5 = (case tipInterval of
                                None \<Rightarrow> w4
                              | Some h \<Rightarrow> if h \<noteq> 0 then clearInterval h w4 else w4)
                    in (case callback of
                          None \<Rightarrow> Fulfilled w5
                        | Some cb \<Rightarrow>
                            (case cb (app (emit Callback w5)) of
                               Return v u \<Rightarrow> Fulfilled ((emit Callback w5)\<lparr>app := u\<rparr>)
                             | Throw e u \<Rightarrow> Rejected e ((emit Callback w5)\<lparr>app := u\<rparr>))))))"

text \<open>
  The synchronous part: start the tip rotation and show the first tip, show the loading
  screen. \<^verbatim>\<open>tipInterval\<close> stays \<^verbatim>\<open>undefined\<close> when no timer is started.
\<close>

definition start_tips :: "MB_AsyncLoadController \<Rightarrow> 'u world \<Rightarrow> nat option \<times> 'u world" where
  "start_tips this w =
     (if loadingTips this \<noteq> None \<and> 0 < length (tips this)
      then let (h, w1) = setInterval 10000 w
           in (Some h, emit (TipsText (tips this ! 0)) w1)
      else (None, w))"

definition show_screen :: "MB_AsyncLoadController \<Rightarrow> 'u world \<Rightarrow> 'u world" where
  "show_screen this w = (if loadingScreen this \<noteq> None then emit ScreenShow w else w)"

text \<open>
  \<^verbatim>\<open>funcs.reduce((promise, func, idx) => promise.then(...), Promise.resolve())\<close>: a left
  fold over the work functions paired with their indices.
\<close>

definition promiseSequence ::
  "MB_AsyncLoadController \<Rightarrow> 'u MB_AsyncLoadOperation list \<Rightarrow> 'u promise" where
  "promiseSequence this funcList =
     (let funcs = map op_func funcList
      in foldl (\<lambda>promise (func, idx). promise_then promise (step_reaction this funcList func idx))
           Promise_resolve (zip funcs [0..<length funcs]))"

text \<open>
  \<^verbatim>\<open>initLoadOperation\<close> returns to its caller with the world after the synchronous part
  and leaves the chain of reactions pending.
\<close>

definition initLoadOperation ::
  "MB_AsyncLoadController \<Rightarrow> 'u MB_AsyncLoadOperation list \<Rightarrow> ('u \<Rightarrow> 'u completion) option
     \<Rightarrow> 'u world \<Rightarrow> 'u world \<times> 'u promise" where
  "initLoadOperation this funcList callback w =
     (let (tipInterval, w1) = start_tips this w;
          w2 = show_screen this w1
      in (w2, promise_then (promiseSequence this funcList)
                (final_reaction this tipInterval callback)))"

text \<open>A whole run: the call, then the microtask queue drained before any timer can fire.\<close>

definition run ::
  "MB_AsyncLoadController \<Rightarrow> 'u MB_AsyncLoadOperation list \<Rightarrow> ('u \<Rightarrow> 'u completion) option
     \<Rightarrow> 'u world \<Rightarrow> 'u settled" where
  "run this funcList callback w =
     (let (w', pending) = initLoadOperation this funcList callback w in pending w')"

text \<open>
  The function given to \<^verbatim>\<open>setInterval\<close>, called with the value \<open>r\<close> that
  \<^verbatim>\<open>Math.random()\<close> returns. An index outside the array reads \<^verbatim>\<open>undefined\<close>.
\<close>

definition randomTipIndex :: "MB_AsyncLoadController \<Rightarrow> rat \<Rightarrow> int" where
  "randomTipIndex this r = Math_floor (double_mul r (of_nat (length (tips this))))"

definition tip_callback :: "MB_AsyncLoadController \<Rightarrow> rat \<Rightarrow> 'u world \<Rightarrow> 'u world" where
  "tip_callback this r w =
     (let i = randomTipIndex this r
      in case loadingTips this of
           None \<Rightarrow> w
         | Some _ \<Rightarrow>
             emit (TipsText (if 0 \<le> i \<and> i < int (length (tips this))
                             then tips this ! nat i else ''undefined'')) w)"

text \<open>The event loop fires the timer with handle \<open>h\<close>: nothing happens unless it is alive.\<close>

definition fire :: "MB_AsyncLoadController \<Rightarrow> nat \<Rightarrow> rat \<Rightarrow> 'u world \<Rightarrow> 'u world" where
  "fire this h r w = (if h \<in> set (timers w) then tip_callback this r w else w)"

subsection \<open>Reading a run\<close>

text \<open>The world in which a settled promise leaves the page.\<close>

fun world_of :: "'u settled \<Rightarrow> 'u world" where
  "world_of (Fulfilled w) = w"
| "world_of (Rejected e w) = w"

fun app_of :: "'u completion \<Rightarrow> 'u" where
  "app_of (Return v u) = u"
| "app_of (Throw e u) = u"

text \<open>
  Calling the work functions alone, one after the other, each on the application state the
  previous one left, stopping at the first that throws. The runs of the controller are
  compared with it.
\<close>

fun call_all :: "('u \<Rightarrow> 'u completion) list \<Rightarrow> 'u \<Rightarrow> 'u completion" where
  "call_all [] u = Return Undefined u"
| "call_all (f # fs) u =
     (case f u of Return v u' \<Rightarrow> call_all fs u' | Throw e u' \<Rightarrow> Throw e u')"

text \<open>Reactions run one after the other until one rejects.\<close>

fun chain :: "('u world \<Rightarrow> 'u settled) list \<Rightarrow> 'u world \<Rightarrow> 'u settled" where
  "chain [] w = Fulfilled w"
| "chain (r # rs) w =
     (case r w of Fulfilled w' \<Rightarrow> chain rs w' | Rejected e w' \<Rightarrow> Rejected e w')"

text \<open>The four sinks that the reactions use without a test.\<close>

definition sinks_present :: "MB_AsyncLoadController \<Rightarrow> bool" where
  "sinks_present this \<longleftrightarrow>
     loadingScreen this \<noteq> None \<and> loadingText this \<noteq> None \<and>
     loadingPercentage this \<noteq> None \<and> loadingProgressBar this \<noteq> None"

text \<open>The test that guards the start of the tip rotation.\<close>

definition rotating :: "MB_AsyncLoadController \<Rightarrow> bool" where
  "rotating this \<longleftrightarrow> loadingTips this \<noteq> None \<and> 0 < length (tips this)"

text \<open>The events of the synchronous part, of the reaction of one step, and of the end.\<close>

definition start_events :: "MB_AsyncLoadController \<Rightarrow> 'u world \<Rightarrow> event list" where
  "start_events this w =
     (if rotating this
      then [SetInterval (Suc (last_timer w)) 10000, TipsText (tips this ! 0)] else []) @
     (if loadingScreen this \<noteq> None then [ScreenShow] else [])"

definition step_events :: "'u MB_AsyncLoadOperation list \<Rightarrow> nat \<Rightarrow> event list" where
  "step_events funcList idx =
     [LabelText (op_text (funcList ! idx)),
      BarWidth (percent (length funcList) idx),
      PctText (percent (length funcList) idx),
      Invoke idx]"

definition final_events ::
  "MB_AsyncLoadController \<Rightarrow> 'u world \<Rightarrow> ('u \<Rightarrow> 'u completion) option \<Rightarrow> event list" where
  "final_events this w callback =
     [PctText 100, BarWidth 100, ScreenHide] @
     (if loadingTips this \<noteq> None then [TipsText ''''] else []) @
     (if rotating this then [ClearInterval (Suc (last_timer w))] else []) @
     (case callback of None \<Rightarrow> [] | Some cb \<Rightarrow> [Callback])"

text \<open>Projections of a trace: the calls of caller code, and the writes to one sink.\<close>

fun is_call :: "event \<Rightarrow> bool" where
  "is_call (Invoke i) = True"
| "is_call Callback = True"
| "is_call e = False"

fun label_write :: "event \<Rightarrow> string option" where
  "label_write (LabelText s) = Some s"
| "label_write e = None"

fun pct_write :: "event \<Rightarrow> int option" where
  "pct_write (PctText p) = Some p"
| "pct_write e = None"

fun bar_write :: "event \<Rightarrow> int option" where
  "bar_write (BarWidth p) = Some p"
| "bar_write e = None"

text \<open>A work function changed to hand back the value \<open>v\<close> whenever it returns.\<close>

definition returning :: "js_value \<Rightarrow> 'u MB_AsyncLoadOperation \<Rightarrow> 'u MB_AsyncLoadOperation" where
  "returning v f =
     f\<lparr>op_func := (\<lambda>u. case op_func f u of
                           Return v' u' \<Rightarrow> Return v u'
                         | Throw e u' \<Rightarrow> Throw e u')\<rparr>"

text \<open>
  The page after the synchronous part of a call, after the reactions of the first \<open>m\<close>
  steps, and after the reaction at the end of the chain; \<open>w0\<close> is the page at the call.
\<close>

definition started :: "MB_AsyncLoadController \<Rightarrow> 'u world \<Rightarrow> 'u world" where
  "started this w =
     w\<lparr>trace := trace w @ start_events this w,
       timers := timers w @ (if rotating this then [Suc (last_timer w)] else []),
       last_timer := (if rotating this then Suc (last_timer w) else last_timer w)\<rparr>"

definition stepped :: "'u MB_AsyncLoadOperation list \<Rightarrow> nat \<Rightarrow> 'u \<Rightarrow> 'u world \<Rightarrow> 'u world" where
  "stepped funcList m u w =
     w\<lparr>trace := trace w @ concat (map (step_events funcList) [0..<m]), app := u\<rparr>"

definition finished ::
  "MB_AsyncLoadController \<Rightarrow> 'u world \<Rightarrow> ('u \<Rightarrow> 'u completion) option \<Rightarrow> 'u world \<Rightarrow> 'u world" where
  "finished this w0 callback w =
     w\<lparr>trace := trace w @ final_events this w0 callback,
       timers := (if rotating this then removeAll (Suc (last_timer w0)) (timers w) else timers w),
       app := (case callback of None \<Rightarrow> app w | Some cb \<Rightarrow> app_of (cb (app w)))\<rparr>"

text \<open>The completion callback, when there is one, returns on the application state \<open>u\<close>.\<close>

definition returns :: "('u \<Rightarrow> 'u completion) option \<Rightarrow> 'u \<Rightarrow> bool" where
  "returns callback u =
     (case callback of None \<Rightarrow> True
      | Some cb \<Rightarrow> (case cb u of Return v u' \<Rightarrow> True | Throw e u' \<Rightarrow> False))"

subsection \<open>Concrete inputs\<close>

text \<open>
  The controller that the main script constructs, steps whose work appends the label to a
  log kept in the application state, a step whose work throws as the compatibility check
  does on a browser without WebGL, and a page on which nothing has happened yet.
\<close>

definition main_options :: MB_Options where
  "main_options = \<lparr>
     opt_loadingScreen = Some (Element ''loadingScreen''),
     opt_loadingText = Some (Element ''loadingTextLeft''),
     opt_loadingPercentage = Some (Element ''loadingTextRight''),
     opt_loadingProgressBar = Some (Element ''loadingProgressBar''),
     opt_loadingTips = Some (Element ''loadingTips''),
     opt_tips = Some [''In some levels, you can jump using the spacebar.'',
                      ''Be careful not to touch the spikes!''] \<rparr>"

definition asyncLoadController :: MB_AsyncLoadController where
  "asyncLoadController = \<lparr>
     loadingScreen = Some (Element ''loadingScreen''),
     loadingText = Some (Element ''loadingTextLeft''),
     loadingPercentage = Some (Element ''loadingTextRight''),
     loadingProgressBar = Some (Element ''loadingProgressBar''),
     loadingTips = Some (Element ''loadingTips''),
     tips = [''In some levels, you can jump using the spacebar.'',
             ''Be careful not to touch the spikes!''] \<rparr>"

definition log_step :: "string \<Rightarrow> string list MB_AsyncLoadOperation" where
  "log_step s = \<lparr>op_text = s, op_func = (\<lambda>entries. Return Undefined (entries @ [s]))\<rparr>"

definition failing_step :: "string \<Rightarrow> string list MB_AsyncLoadOperation" where
  "failing_step s = \<lparr>op_text = s, op_func = (\<lambda>entries. Throw (Error s) entries)\<rparr>"

definition done_callback :: "string list \<Rightarrow> string list completion" where
  "done_callback entries = Return Undefined (entries @ [''done''])"

definition fresh_page :: "string list world" where
  "fresh_page = \<lparr>trace = [], timers = [], last_timer = 0, app = []\<rparr>"

section \<open>Properties of a run\<close>

subsection \<open>The chain of reactions\<close>

lemma upt_cons_shift: "[j..<j + Suc n] = j # [Suc j..<Suc j + n]"
  using upt_conv_Cons[of j "j + Suc n"] by (simp del: upt_Suc)

lemma foldl_then_chain:
  "foldl (\<lambda>promise (func, idx). promise_then promise (R func idx)) p xs w =
     (case p w of Fulfilled w' \<Rightarrow> chain (map (\<lambda>(func, idx). R func idx) xs) w'
      | Rejected e w' \<Rightarrow> Rejected e w')"
proof (induction xs arbitrary: p w)
  case Nil
  show ?case by (simp split: settled.split)
next
  case (Cons x xs)
  obtain f i where x: "x = (f, i)" by (cases x)
  have "foldl (\<lambda>promise (func, idx). promise_then promise (R func idx)) p (x # xs) w =
        foldl (\<lambda>promise (func, idx). promise_then promise (R func idx))
          (promise_then p (R f i)) xs w"
    by (simp add: x)
  also have "\<dots> = (case promise_then p (R f i) w of
                      Fulfilled w' \<Rightarrow> chain (map (\<lambda>(func, idx). R func idx) xs) w'
                    | Rejected e w' \<Rightarrow> Rejected e w')"
    by (rule Cons.IH)
  also have "\<dots> = (case p w of
                      Fulfilled w' \<Rightarrow> chain (map (\<lambda>(func, idx). R func idx) (x # xs)) w'
                    | Rejected e w' \<Rightarrow> Rejected e w')"
    by (simp add: promise_then_def x split: settled.split)
  finally show ?case .
qed

lemma promiseSequence_chain:
  "promiseSequence this funcList w =
     chain (map (\<lambda>(func, idx). step_reaction this funcList func idx)
              (zip (map op_func funcList) [0..<length funcList])) w"
  by (simp add: promiseSequence_def Let_def foldl_then_chain Promise_resolve_def)

lemma step_reaction_Return:
  assumes "sinks_present this" and "func (app w) = Return v u"
  shows "step_reaction this funcList func idx w =
           Fulfilled (w\<lparr>trace := trace w @ step_events funcList idx, app := u\<rparr>)"
  using assms
  by (auto simp: step_reaction_def sinks_present_def emit_def step_events_def Let_def)

lemma step_reaction_Throw:
  assumes "sinks_present this" and "func (app w) = Throw e u"
  shows "step_reaction this funcList func idx w =
           Rejected e (w\<lparr>trace := trace w @ step_events funcList idx, app := u\<rparr>)"
  using assms
  by (auto simp: step_reaction_def sinks_present_def emit_def step_events_def Let_def)

lemma chain_steps_Return:
  assumes "sinks_present this"
  shows "call_all fs (app w) = Return v u \<Longrightarrow>
         chain (map (\<lambda>(func, idx). step_reaction this funcList func idx)
                  (zip fs [j..<j + length fs])) w =
           Fulfilled (w\<lparr>trace := trace w @ concat (map (step_events funcList) [j..<j + length fs]),
                        app := u\<rparr>)"
proof (induction fs arbitrary: w j)
  case Nil
  then show ?case by simp
next
  case (Cons f fs)
  from Cons.prems obtain v1 u1 where f: "f (app w) = Return v1 u1"
    and rest: "call_all fs u1 = Return v u"
    by (auto split: completion.splits)
  let ?w1 = "w\<lparr>trace := trace w @ step_events funcList j, app := u1\<rparr>"
  have up: "[j..<j + length (f # fs)] = j # [Suc j..<Suc j + length fs]"
    using upt_cons_shift[of j "length fs"] by (simp del: upt_Suc)
  have first: "step_reaction this funcList f j w = Fulfilled ?w1"
    using assms f by (rule step_reaction_Return)
  have "call_all fs (app ?w1) = Return v u" using rest by simp
  from Cons.IH[OF this, of "Suc j"] show ?case
    unfolding up by (simp del: upt_Suc add: first)
qed

lemma chain_steps_Throw:
  assumes "sinks_present this"
  shows "k < length fs \<Longrightarrow> call_all (take k fs) (app w) = Return v u \<Longrightarrow> (fs ! k) u = Throw e u' \<Longrightarrow>
         chain (map (\<lambda>(func, idx). step_reaction this funcList func idx)
                  (zip fs [j..<j + length fs])) w =
           Rejected e (w\<lparr>trace := trace w @ concat (map (step_events funcList) [j..<j + Suc k]),
                        app := u'\<rparr>)"
proof (induction fs arbitrary: w j k)
  case Nil
  then show ?case by simp
next
  case (Cons f fs)
  have up: "[j..<j + length (f # fs)] = j # [Suc j..<Suc j + length fs]"
    using upt_cons_shift[of j "length fs"] by (simp del: upt_Suc)
  show ?case
  proof (cases k)
    case 0
    with Cons.prems have "f (app w) = Throw e u'" by simp
    with assms have "step_reaction this funcList f j w =
        Rejected e (w\<lparr>trace := trace w @ step_events funcList j, app := u'\<rparr>)"
      by (rule step_reaction_Throw)
    then show ?thesis
      unfolding up by (simp add: 0)
  next
    case (Suc k')
    from Cons.prems Suc obtain v1 u1 where f: "f (app w) = Return v1 u1"
      and rest: "call_all (take k' fs) u1 = Return v u"
      by (auto split: completion.splits)
    let ?w1 = "w\<lparr>trace := trace w @ step_events funcList j, app := u1\<rparr>"
    have first: "step_reaction this funcList f j w = Fulfilled ?w1"
      using assms f by (rule step_reaction_Return)
    have a: "call_all (take k' fs) (app ?w1) = Return v u" using rest by simp
    have b: "k' < length fs" using Cons.prems Suc by simp
    have c: "(fs ! k') u = Throw e u'" using Cons.prems Suc by simp
    have up2: "[j..<j + Suc k] = j # [Suc j..<Suc j + Suc k']"
      unfolding Suc by (rule upt_cons_shift)
    from Cons.IH[OF b a c, of "Suc j"] show ?thesis
      unfolding up up2 by (simp del: upt_Suc add: first)
  qed
qed

lemma promiseSequence_Return:
  assumes "sinks_present this" and "call_all (map op_func funcList) (app w) = Return v u"
  shows "promiseSequence this funcList w =
           Fulfilled (w\<lparr>trace := trace w @ concat (map (step_events funcList) [0..<length funcList]),
                        app := u\<rparr>)"
  using chain_steps_Return[OF assms(1), of "map op_func funcList" w v u funcList 0] assms(2)
  by (simp add: promiseSequence_chain)

lemma promiseSequence_Throw:
  assumes "sinks_present this" and "k < length funcList"
    and "call_all (take k (map op_func funcList)) (app w) = Return v u"
    and "op_func (funcList ! k) u = Throw e u'"
  shows "promiseSequence this funcList w =
           Rejected e (w\<lparr>trace := trace w @ concat (map (step_events funcList) [0..<Suc k]),
                        app := u'\<rparr>)"
  using chain_steps_Throw[OF assms(1), of k "map op_func funcList" w v u e u' funcList 0] assms(2-4)
  by (simp add: promiseSequence_chain)

lemma initLoadOperation_fst:
  "fst (initLoadOperation this funcList callback w) = started this w"
  by (simp add: initLoadOperation_def start_tips_def show_screen_def setInterval_def emit_def
      started_def start_events_def rotating_def Let_def split_def)

lemma initLoadOperation_snd:
  "snd (initLoadOperation this funcList callback w) =
     promise_then (promiseSequence this funcList)
       (final_reaction this (if rotating this then Some (Suc (last_timer w)) else None) callback)"
  by (simp add: initLoadOperation_def start_tips_def show_screen_def setInterval_def
      rotating_def Let_def split_def)

lemma run_unfold:
  "run this funcList callback w =
     promise_then (promiseSequence this funcList)
       (final_reaction this (if rotating this then Some (Suc (last_timer w)) else None) callback)
       (started this w)"
  using initLoadOperation_fst[of this funcList callback w]
    initLoadOperation_snd[of this funcList callback w]
  by (simp add: run_def split_def)

lemma final_reaction_world:
  assumes "loadingPercentage this \<noteq> None" and "loadingProgressBar this \<noteq> None"
    and "loadingScreen this \<noteq> None"
  shows "world_of (final_reaction this (if rotating this then Some (Suc (last_timer w0)) else None)
           callback w) = finished this w0 callback w"
  using assms
  by (auto simp: final_reaction_def finished_def final_events_def emit_def
      clearInterval_def Let_def split: option.splits completion.splits)

lemma final_reaction_Fulfilled:
  assumes "loadingPercentage this \<noteq> None" and "loadingProgressBar this \<noteq> None"
    and "loadingScreen this \<noteq> None" and "returns callback (app w)"
  shows "final_reaction this (if rotating this then Some (Suc (last_timer w0)) else None)
           callback w = Fulfilled (finished this w0 callback w)"
  using assms
  by (auto simp: final_reaction_def finished_def final_events_def emit_def returns_def
      clearInterval_def Let_def split: option.splits completion.splits)

lemma run_Return_world:
  assumes "sinks_present this" and "call_all (map op_func funcList) (app w) = Return v u"
  shows "world_of (run this funcList callback w) =
           finished this w callback (stepped funcList (length funcList) u (started this w))"
proof -
  have a: "app (started this w) = app w" by (simp add: started_def)
  have "promiseSequence this funcList (started this w) =
          Fulfilled (stepped funcList (length funcList) u (started this w))"
    unfolding stepped_def using assms(1) by (rule promiseSequence_Return) (simp add: a assms(2))
  moreover have "loadingPercentage this \<noteq> None" "loadingProgressBar this \<noteq> None"
    "loadingScreen this \<noteq> None"
    using assms(1) by (simp_all add: sinks_present_def)
  ultimately show ?thesis
    by (simp add: run_unfold promise_then_def final_reaction_world)
qed

lemma run_Return_Fulfilled:
  assumes "sinks_present this" and "call_all (map op_func funcList) (app w) = Return v u"
    and "returns callback u"
  shows "run this funcList callback w =
           Fulfilled (finished this w callback (stepped funcList (length funcList) u (started this w)))"
proof -
  have a: "app (started this w) = app w" by (simp add: started_def)
  have "promiseSequence this funcList (started this w) =
          Fulfilled (stepped funcList (length funcList) u (started this w))"
    unfolding stepped_def using assms(1) by (rule promiseSequence_Return) (simp add: a assms(2))
  moreover have "loadingPercentage this \<noteq> None" "loadingProgressBar this \<noteq> None"
    "loadingScreen this \<noteq> None"
    using assms(1) by (simp_all add: sinks_present_def)
  moreover have "returns callback (app (stepped funcList (length funcList) u (started this w)))"
    using assms(3) by (simp add: stepped_def)
  ultimately show ?thesis
    by (simp add: run_unfold promise_then_def final_reaction_Fulfilled)
qed

lemma run_Throw:
  assumes "sinks_present this" and "k < length funcList"
    and "call_all (take k (map op_func funcList)) (app w) = Return v u"
    and "op_func (funcList ! k) u = Throw e u'"
  shows "run this funcList callback w = Rejected e (stepped funcList (Suc k) u' (started this w))"
proof -
  have a: "app (started this w) = app w" by (simp add: started_def)
  have "promiseSequence this funcList (started this w) =
          Rejected e (stepped funcList (Suc k) u' (started this w))"
    unfolding stepped_def
    using promiseSequence_Throw[OF assms(1,2) _ assms(4), of "started this w" v] assms(3)
    by (simp add: a)
  then show ?thesis
    by (simp add: run_unfold promise_then_def)
qed

lemma calls_of_steps: "filter is_call (concat (map (step_events funcList) xs)) = map Invoke xs"
  by (induction xs) (simp_all add: step_events_def)

lemma calls_of_start: "filter is_call (start_events this w) = []"
  by (simp add: start_events_def)

lemma calls_of_final:
  "filter is_call (final_events this w callback) = (case callback of None \<Rightarrow> [] | Some cb \<Rightarrow> [Callback])"
  by (simp add: final_events_def split: option.split)


lemma map_filter_append:
  "List.map_filter f (xs @ ys) = List.map_filter f xs @ List.map_filter f ys"
  by (simp add: List.map_filter_def)

lemma run_Nil_world:
  assumes "loadingPercentage this \<noteq> None" and "loadingProgressBar this \<noteq> None"
    and "loadingScreen this \<noteq> None"
  shows "world_of (run this [] callback w) = finished this w callback (started this w)"
  using assms
  by (simp add: run_unfold promise_then_def promiseSequence_def Promise_resolve_def
      final_reaction_world)

lemma run_Return_world_steps:
  assumes "loadingScreen this \<noteq> None" and "loadingPercentage this \<noteq> None"
    and "loadingProgressBar this \<noteq> None"
    and "funcList \<noteq> [] \<longrightarrow> loadingText this \<noteq> None"
    and "call_all (map op_func funcList) (app w) = Return v u"
  shows "world_of (run this funcList callback w) =
           finished this w callback (stepped funcList (length funcList) u (started this w))"
proof (cases "funcList = []")
  case True
  then have u: "u = app w" using assms(5) by simp
  have "stepped [] 0 (app w) (started this w) = started this w"
    by (simp add: stepped_def started_def)
  then show ?thesis
    using run_Nil_world[OF assms(2,3,1), of callback w] by (simp add: True u)
next
  case False
  then have "sinks_present this" using assms(1-4) by (simp add: sinks_present_def)
  then show ?thesis using assms(5) by (rule run_Return_world)
qed

lemma run_is_pending_chain:
  "run this funcList callback w =
     snd (initLoadOperation this funcList callback w)
       (fst (initLoadOperation this funcList callback w))"
  by (simp add: run_def split_def Let_def)

lemma returning_reactions:
  "map (\<lambda>(func, idx). step_reaction this (map (returning v) funcList) func idx)
     (zip (map op_func (map (returning v) funcList)) [0..<length funcList]) =
   map (\<lambda>(func, idx). step_reaction this funcList func idx)
     (zip (map op_func funcList) [0..<length funcList])"
proof -
  have one: "step_reaction this (map (returning v) funcList) (op_func (returning v f)) i =
      step_reaction this funcList (op_func f) i" if "i < length funcList" for f i
    using that
    by (simp add: step_reaction_def returning_def Let_def fun_eq_iff
        split: option.split completion.split)
  have "map (\<lambda>(func, idx). step_reaction this (map (returning v) funcList) func idx)
          (zip (map op_func (map (returning v) funcList)) [0..<length funcList]) =
        map (\<lambda>(f, idx). step_reaction this (map (returning v) funcList) (op_func (returning v f)) idx)
          (zip funcList [0..<length funcList])"
    by (simp add: zip_map1 case_prod_unfold comp_def)
  also have "\<dots> = map (\<lambda>(f, idx). step_reaction this funcList (op_func f) idx)
          (zip funcList [0..<length funcList])"
  proof (rule map_cong[OF refl])
    fix x assume "x \<in> set (zip funcList [0..<length funcList])"
    then have "snd x \<in> set [0..<length funcList]"
      by (metis prod.collapse set_zip_rightD)
    then have "snd x < length funcList"
      by simp
    then show "(case x of (f, idx) \<Rightarrow>
                 step_reaction this (map (returning v) funcList) (op_func (returning v f)) idx) =
               (case x of (f, idx) \<Rightarrow> step_reaction this funcList (op_func f) idx)"
      by (cases x) (simp add: one)
  qed
  also have "\<dots> = map (\<lambda>(func, idx). step_reaction this funcList func idx)
          (zip (map op_func funcList) [0..<length funcList])"
    by (simp add: zip_map1 case_prod_unfold comp_def)
  finally show ?thesis .
qed

lemma returning_promiseSequence:
  "promiseSequence this (map (returning v) funcList) = promiseSequence this funcList"
proof
  fix w
  show "promiseSequence this (map (returning v) funcList) w = promiseSequence this funcList w"
    using returning_reactions[of this v funcList]
    by (simp add: promiseSequence_chain)
qed

lemma call_all_append:
  "call_all (xs @ ys) s =
     (case call_all xs s of Return v u \<Rightarrow> call_all ys u | Throw e u \<Rightarrow> Throw e u)"
  by (induction xs arbitrary: s) (simp_all split: completion.split)

lemma call_all_Throw_index:
  "call_all fs s = Throw e u' \<Longrightarrow>
     \<exists>k<length fs. \<exists>v u. call_all (take k fs) s = Return v u \<and> (fs ! k) u = Throw e u'"
proof (induction fs arbitrary: s)
  case Nil
  then show ?case by simp
next
  case (Cons f fs)
  show ?case
  proof (cases "f s")
    case (Throw e1 u1)
    with Cons.prems have "f s = Throw e u'" by simp
    then have "call_all (take 0 (f # fs)) s = Return Undefined s \<and> ((f # fs) ! 0) s = Throw e u'"
      by simp
    then show ?thesis by blast
  next
    case (Return v1 u1)
    with Cons.prems have "call_all fs u1 = Throw e u'" by simp
    from Cons.IH[OF this] obtain k v u where k: "k < length fs"
      "call_all (take k fs) u1 = Return v u" "(fs ! k) u = Throw e u'"
      by blast
    then have "Suc k < length (f # fs) \<and> call_all (take (Suc k) (f # fs)) s = Return v u \<and>
        ((f # fs) ! Suc k) u = Throw e u'"
      using Return by simp
    then show ?thesis by blast
  qed
qed

lemma call_all_take_Throw:
  assumes "k < length fs" and "call_all (take k fs) s = Return v u" and "(fs ! k) u = Throw e u'"
    and "k < i"
  shows "call_all (take i fs) s = Throw e u'"
proof -
  have "take (Suc k) fs = take k fs @ [fs ! k]"
    using assms(1) by (rule take_Suc_conv_app_nth)
  then have a: "call_all (take (Suc k) fs) s = Throw e u'"
    using assms(2,3) by (simp add: call_all_append)
  have "take i fs = take (Suc k) fs @ drop (Suc k) (take i fs)"
    using assms(4) by (metis Suc_leI append_take_drop_id min.absorb1 take_take)
  then have "call_all (take i fs) s = call_all (take (Suc k) fs @ drop (Suc k) (take i fs)) s"
    by simp
  also have "\<dots> = Throw e u'"
    by (simp only: call_all_append a completion.case)
  finally show ?thesis .
qed

lemma upt_split3: "i < m \<Longrightarrow> [0..<m] = [0..<i] @ i # [Suc i..<m]"
  by (metis le_add2 le_add_same_cancel2 upt_add_eq_append upt_conv_Cons less_imp_le_nat le_add_diff_inverse)

lemma run_trace_before_step:
  assumes "sinks_present this" and "i < length funcList"
    and "call_all (take i (map op_func funcList)) (app w) = Return v u"
  shows "\<exists>after.
           trace (world_of (run this funcList callback w)) =
             trace w @ start_events this w @
             concat (map (step_events funcList) [0..<i]) @
             [LabelText (op_text (funcList ! i)),
              BarWidth (percent (length funcList) i),
              PctText (percent (length funcList) i),
              Invoke i] @ after"
proof (cases "call_all (map op_func funcList) (app w)")
  case (Return v' u')
  have "trace (world_of (run this funcList callback w)) =
      trace w @ start_events this w @
      concat (map (step_events funcList) [0..<length funcList]) @ final_events this w callback"
    by (simp add: run_Return_world[OF assms(1) Return] finished_def stepped_def started_def)
  then show ?thesis
    by (simp add: upt_split3[OF assms(2)] step_events_def del: upt_Suc)
next
  case (Throw e u')
  from call_all_Throw_index[OF Throw] obtain k vk uk where k: "k < length funcList"
    "call_all (take k (map op_func funcList)) (app w) = Return vk uk"
    "op_func (funcList ! k) uk = Throw e u'"
    by auto
  have ik: "i < Suc k"
  proof (rule ccontr)
    assume "\<not> i < Suc k"
    then have "k < i" by simp
    have "k < length (map op_func funcList)" using k(1) by simp
    moreover have "(map op_func funcList ! k) uk = Throw e u'" using k(1,3) by simp
    ultimately have "call_all (take i (map op_func funcList)) (app w) = Throw e u'"
      using k(2) \<open>k < i\<close> by (intro call_all_take_Throw[where k=k and v=vk and u=uk])
    with assms(3) show False by simp
  qed
  have "trace (world_of (run this funcList callback w)) =
      trace w @ start_events this w @ concat (map (step_events funcList) [0..<Suc k])"
    by (simp add: run_Throw[OF assms(1) k] stepped_def started_def del: upt_Suc)
  then show ?thesis
    by (simp add: upt_split3[OF ik] step_events_def del: upt_Suc)
qed

lemma constructor_main_options: "constructor main_options = Inr asyncLoadController"
  by (simp add: constructor_def main_options_def asyncLoadController_def)

lemma step_reaction_no_percentage:
  assumes "loadingPercentage this = None"
  shows "\<exists>name w'. step_reaction this funcList func idx w = Rejected (TypeError name) w' \<and>
           filter is_call (trace w') = filter is_call (trace w) \<and> app w' = app w \<and>
           (loadingText this \<noteq> None \<longrightarrow> loadingProgressBar this \<noteq> None \<longrightarrow>
              name = ''loadingPercentage'')"
  using assms
  by (auto simp: step_reaction_def emit_def Let_def split: option.split)

lemma run_no_percentage:
  assumes "loadingPercentage this = None"
  shows "\<exists>name w'. run this funcList callback w = Rejected (TypeError name) w' \<and>
           filter is_call (trace w') = filter is_call (trace w) \<and> app w' = app w \<and>
           (loadingText this \<noteq> None \<longrightarrow> loadingProgressBar this \<noteq> None \<longrightarrow>
              name = ''loadingPercentage'')"
proof (cases funcList)
  case Nil
  have "promiseSequence this [] (started this w) = Fulfilled (started this w)"
    by (simp add: promiseSequence_def Promise_resolve_def)
  then have "run this funcList callback w =
      Rejected (TypeError ''loadingPercentage'') (started this w)"
    by (simp add: Nil run_unfold promise_then_def final_reaction_def assms)
  moreover have "filter is_call (trace (started this w)) = filter is_call (trace w)"
    by (simp add: started_def calls_of_start)
  moreover have "app (started this w) = app w"
    by (simp add: started_def)
  ultimately show ?thesis by blast
next
  case (Cons f fs)
  have up: "[0..<length (f # fs)] = 0 # [Suc 0..<Suc 0 + length fs]"
    using upt_cons_shift[of 0 "length fs"] by (simp del: upt_Suc)
  from step_reaction_no_percentage[OF assms, of funcList "op_func f" 0 "started this w"]
  obtain name w' where s: "step_reaction this funcList (op_func f) 0 (started this w) =
        Rejected (TypeError name) w'"
    and t: "filter is_call (trace w') = filter is_call (trace (started this w))"
    and a: "app w' = app (started this w)"
    and n: "loadingText this \<noteq> None \<longrightarrow> loadingProgressBar this \<noteq> None \<longrightarrow>
              name = ''loadingPercentage''"
    by blast
  have "promiseSequence this funcList (started this w) = Rejected (TypeError name) w'"
    unfolding promiseSequence_chain unfolding Cons up
    using s by (simp add: Cons del: upt_Suc)
  then have "run this funcList callback w = Rejected (TypeError name) w'"
    by (simp add: run_unfold promise_then_def)
  moreover have "filter is_call (trace w') = filter is_call (trace w)"
    using t by (simp add: started_def calls_of_start)
  moreover have "app w' = app w"
    using a by (simp add: started_def)
  ultimately show ?thesis using n by blast
qed

lemma promiseSequence_without_screen:
  "promiseSequence (this\<lparr>loadingScreen := s\<rparr>) funcList = promiseSequence this funcList"
proof -
  have eq: "step_reaction (this\<lparr>loadingScreen := s\<rparr>) = step_reaction this"
    by (auto simp: step_reaction_def fun_eq_iff Let_def split: option.split)
  show ?thesis
    unfolding promiseSequence_def eq ..
qed

lemma promiseSequence_Return_steps:
  assumes "loadingText this \<noteq> None" and "loadingProgressBar this \<noteq> None"
    and "loadingPercentage this \<noteq> None"
    and "call_all (map op_func funcList) (app w) = Return v u"
  shows "promiseSequence this funcList w =
           Fulfilled (w\<lparr>trace := trace w @ concat (map (step_events funcList) [0..<length funcList]),
                        app := u\<rparr>)"
proof -
  have "sinks_present (this\<lparr>loadingScreen := Some (Element [])\<rparr>)"
    using assms(1-3) by (simp add: sinks_present_def)
  from promiseSequence_Return[OF this assms(4)] show ?thesis
    by (simp only: promiseSequence_without_screen)
qed

lemma final_reaction_world_without_screen:
  assumes "loadingPercentage this \<noteq> None" and "loadingProgressBar this \<noteq> None"
    and "loadingScreen this = None"
  shows "final_reaction this tipInterval callback w =
           Rejected (TypeError ''loadingScreen'') (w\<lparr>trace := trace w @ [PctText 100, BarWidth 100]\<rparr>)"
  using assms
  by (auto simp: final_reaction_def emit_def Let_def)

lemma final_reaction_settled:
  assumes "loadingPercentage this \<noteq> None" and "loadingProgressBar this \<noteq> None"
    and "loadingScreen this \<noteq> None"
  shows "final_reaction this (if rotating this then Some (Suc (last_timer w0)) else None)
           callback w =
         (case callback of
            None \<Rightarrow> Fulfilled (finished this w0 callback w)
          | Some cb \<Rightarrow>
              (case cb (app w) of
                 Return v u \<Rightarrow> Fulfilled (finished this w0 callback w)
               | Throw e u \<Rightarrow> Rejected e (finished this w0 callback w)))"
  using assms
  by (auto simp: final_reaction_def finished_def final_events_def emit_def
      clearInterval_def Let_def split: option.splits completion.splits)

lemma run_Nil_settled:
  assumes "loadingPercentage this \<noteq> None" and "loadingProgressBar this \<noteq> None"
    and "loadingScreen this \<noteq> None"
  shows "run this [] callback w =
         (case callback of
            None \<Rightarrow> Fulfilled (finished this w callback (started this w))
          | Some cb \<Rightarrow>
              (case cb (app w) of
                 Return v u \<Rightarrow> Fulfilled (finished this w callback (started this w))
               | Throw e u \<Rightarrow> Rejected e (finished this w callback (started this w))))"
proof -
  have a: "app (started this w) = app w" by (simp add: started_def)
  show ?thesis
    using final_reaction_settled[OF assms, of w callback "started this w", unfolded a]
    by (simp add: run_unfold promise_then_def promiseSequence_def Promise_resolve_def)
qed

subsection \<open>Rounding\<close>

lemma round_half_even_upper: "of_int (round_half_even m) \<le> m + 1 / 2"
  unfolding round_half_even_def Let_def
  by (auto simp: not_less) linarith+

lemma round_half_even_lower: "m - 1 / 2 \<le> of_int (round_half_even m)"
  unfolding round_half_even_def Let_def
  by (auto simp: not_less) linarith+

lemma round_half_even_nonneg: "0 \<le> m \<Longrightarrow> 0 \<le> round_half_even m"
  unfolding round_half_even_def Let_def
  by (auto simp: not_less) 

lemma binade_lower:
  assumes "x \<noteq> 0"
  shows "power_int 2 (binade x) \<le> \<bar>x\<bar>"
proof -
  obtain p q where pq: "quotient_of \<bar>x\<bar> = (p, q)" by (cases "quotient_of \<bar>x\<bar>")
  have q: "0 < q" using pq by (rule quotient_of_denom_pos)
  have x: "\<bar>x\<bar> = of_int p / of_int q" using pq by (rule quotient_of_div)
  have p: "0 < p"
  proof -
    have "0 < \<bar>x\<bar>" using assms by simp
    then have "0 < (of_int p :: rat) / of_int q" by (simp add: x)
    then show ?thesis using q by (simp add: zero_less_divide_iff)
  qed
  let ?d = "bitlen p - bitlen q"
  have b: "binade x = (if power_int 2 ?d \<le> \<bar>x\<bar> then ?d else ?d - 1)"
    by (simp add: binade_def pq Let_def)
  have "power_int 2 (?d - 1) \<le> \<bar>x\<bar>"
  proof -
    have bp: "(2::int) ^ nat (bitlen p - 1) \<le> p" using bitlen_bounds[OF p] by simp
    have bq: "q < (2::int) ^ nat (bitlen q)" using bitlen_bounds[OF q] by simp
    have bp1: "1 \<le> bitlen p" using p by (simp add: bitlen_alt_def)
    have "power_int (2::rat) (?d - 1) = power_int 2 (bitlen p - 1) / power_int 2 (bitlen q)"
      by (simp add: power_int_diff)
    also have "\<dots> = 2 ^ nat (bitlen p - 1) / 2 ^ nat (bitlen q)"
      using bp1 bitlen_nonneg[of q] by (simp add: power_int_def)
    also have "\<dots> \<le> of_int p / of_int q"
    proof (rule frac_le)
      show "(2::rat) ^ nat (bitlen p - 1) \<le> of_int p"
        using bp by (metis of_int_le_iff of_int_numeral of_int_power)
      show "(of_int q :: rat) \<le> 2 ^ nat (bitlen q)"
        using bq by (metis less_imp_le of_int_le_iff of_int_numeral of_int_power)
      show "(0::rat) < of_int q" using q by simp
      show "(0::rat) \<le> of_int p" using p by simp
    qed
    finally show ?thesis by (simp add: x)
  qed
  then show ?thesis by (simp add: b)
qed

lemma double_round_error:
  "\<bar>double_round x - x\<bar> \<le> \<bar>x\<bar> / 2 ^ 53"
proof (cases "x = 0")
  case True
  then show ?thesis by (simp add: double_round_def)
next
  case False
  define u :: rat where "u = power_int 2 (binade x - 52)"
  have u: "0 < u" by (simp add: u_def zero_less_power_int)
  have fl: "double_round x = of_int (round_half_even (x / u)) * u"
    using False by (simp add: double_round_def u_def Let_def)
  have "double_round x - x = (of_int (round_half_even (x / u)) - x / u) * u"
    using u by (simp add: fl algebra_simps)
  then have "\<bar>double_round x - x\<bar> = \<bar>of_int (round_half_even (x / u)) - x / u\<bar> * u"
    using u by (simp add: abs_mult)
  also have "\<dots> \<le> (1 / 2) * u"
  proof (rule mult_right_mono)
    show "\<bar>of_int (round_half_even (x / u)) - x / u\<bar> \<le> 1 / 2"
      using round_half_even_upper[of "x / u"] round_half_even_lower[of "x / u"]
      by (intro abs_leI) linarith+
    show "0 \<le> u" using u by simp
  qed
  also have "\<dots> = power_int 2 (binade x) / 2 ^ 53"
    by (simp add: u_def power_int_diff)
  also have "\<dots> \<le> \<bar>x\<bar> / 2 ^ 53"
    using binade_lower[OF False] by (simp add: divide_right_mono)
  finally show ?thesis .
qed


lemma double_round_nonneg: "0 \<le> x \<Longrightarrow> 0 \<le> double_round x"
  by (simp add: double_round_def Let_def round_half_even_nonneg zero_le_power_int)

lemma percent_near:
  assumes "0 < n" and "i < n"
  shows "\<bar>rat_of_int (percent n i) - 100 * of_nat i / of_nat n\<bar> \<le> 1 / 2 + 1 / 2 ^ 44"
proof -
  define eps :: rat where "eps = 1 / 2 ^ 53"
  define q :: rat where "q = 100 / of_nat n"
  define a where "a = double_round q"
  define k :: rat where "k = of_nat i"
  define b where "b = double_round (a * k)"
  have eps: "0 \<le> eps" "100 * ((1 + eps) * eps + eps) \<le> 1 / 2 ^ 44"
    by (simp_all add: eps_def)
  have k0: "0 \<le> k" by (simp add: k_def)
  have q0: "0 < q" using assms(1) by (simp add: q_def)
  have err: "\<bar>double_round x - x\<bar> \<le> \<bar>x\<bar> * eps" for x
    using double_round_error[of x] by (simp add: eps_def)
  have ea: "\<bar>a - q\<bar> \<le> q * eps"
    using err[of q] q0 by (simp add: a_def)
  have a0: "0 \<le> a" using q0 by (simp add: a_def double_round_nonneg)
  have a1: "a \<le> q * (1 + eps)"
  proof -
    have "a - q \<le> q * eps" using ea by (simp only: abs_le_iff)
    then show ?thesis by (simp add: algebra_simps)
  qed
  have eb: "\<bar>b - a * k\<bar> \<le> (a * k) * eps"
    using err[of "a * k"] a0 k0 by (simp add: b_def)
  have qk: "q * k \<le> 100"
  proof -
    have "q * k = 100 * (of_nat i / of_nat n)" by (simp add: q_def k_def)
    also have "\<dots> \<le> 100 * 1"
      using assms by (intro mult_left_mono) (simp_all add: divide_le_eq)
    finally show ?thesis by simp
  qed
  have qk0: "0 \<le> q * k" using q0 k0 by simp
  have "\<bar>b - q * k\<bar> \<le> \<bar>b - a * k\<bar> + \<bar>a * k - q * k\<bar>"
    by (rule order_trans[OF _ abs_triangle_ineq]) simp
  also have "\<bar>a * k - q * k\<bar> = \<bar>a - q\<bar> * k"
    using k0 by (simp add: abs_mult flip: left_diff_distrib)
  also have "\<bar>b - a * k\<bar> + \<bar>a - q\<bar> * k \<le> (a * k) * eps + (q * eps) * k"
    using eb ea k0 by (intro add_mono mult_right_mono)
  also have "\<dots> \<le> ((q * (1 + eps)) * k) * eps + (q * eps) * k"
    using a1 k0 eps(1) by (intro add_mono mult_right_mono order_refl)
  also have "\<dots> = (q * k) * ((1 + eps) * eps + eps)"
    by (simp add: algebra_simps)
  also have "\<dots> \<le> 100 * ((1 + eps) * eps + eps)"
    using qk eps(1) by (intro mult_right_mono add_nonneg_nonneg mult_nonneg_nonneg) simp_all
  also have "\<dots> \<le> 1 / 2 ^ 44" by (rule eps(2))
  finally have d: "\<bar>b - q * k\<bar> \<le> 1 / 2 ^ 44" .
  have p: "percent n i = \<lfloor>b + 1 / 2\<rfloor>"
    by (simp add: percent_def Math_round_def double_mul_def double_div_def b_def a_def q_def k_def)
  have "of_int \<lfloor>b + 1 / 2\<rfloor> \<le> b + 1 / 2" "b + 1 / 2 < of_int \<lfloor>b + 1 / 2\<rfloor> + 1"
    by linarith+
  then have "\<bar>of_int (percent n i) - b\<bar> \<le> 1 / 2"
    unfolding p by (intro abs_leI) linarith+
  then have main: "\<bar>of_int (percent n i) - q * k\<bar> \<le> 1 / 2 + 1 / 2 ^ 44"
    using d by (intro abs_leI) (simp_all only: abs_le_iff, linarith+)
  have qk_eq: "q * k = 100 * of_nat i / of_nat n" by (simp add: q_def k_def)
  from main show ?thesis unfolding qk_eq .
qed

lemma percent_floor_bounds:
  assumes "0 < n" and "i < n"
  shows "(100 * int i) div int n \<le> percent n i \<and> percent n i \<le> (100 * int i) div int n + 1"
proof -
  define q :: rat where "q = 100 * of_nat i / of_nat n"
  have "q = of_int (100 * int i) / of_int (int n)"
    by (simp add: q_def)
  then have fl: "(100 * int i) div int n = \<lfloor>q\<rfloor>"
    by (simp only: floor_divide_of_int_eq)
  have near: "\<bar>of_int (percent n i) - q\<bar> \<le> 1 / 2 + 1 / 2 ^ 44"
    unfolding q_def using assms by (rule percent_near)
  have small: "(1 / 2 + 1 / 2 ^ 44 :: rat) < 1" by simp
  have "of_int \<lfloor>q\<rfloor> \<le> q" "q < of_int \<lfloor>q\<rfloor> + 1" by linarith+
  with near small have "(of_int (\<lfloor>q\<rfloor> - 1) :: rat) < of_int (percent n i)"
    "(of_int (percent n i) :: rat) < of_int (\<lfloor>q\<rfloor> + 2)"
    by (simp_all only: abs_le_iff of_int_diff of_int_add of_int_1 of_int_numeral, linarith+)
  then have "\<lfloor>q\<rfloor> - 1 < percent n i" "percent n i < \<lfloor>q\<rfloor> + 2"
    by (simp_all only: of_int_less_iff)
  then show ?thesis by (simp add: fl)
qed

lemma double_round_below:
  assumes "0 \<le> r" and "r \<le> 1 - 1 / 2 ^ 53" and "0 < L"
  shows "double_round (r * L) < L"
proof (cases "r * L = 0")
  case True
  then show ?thesis using assms(3) by (simp add: double_round_def)
next
  case False
  define eps :: rat where "eps = 1 / 2 ^ 53"
  define c :: rat where "c = 2 ^ 52"
  define x where "x = r * L"
  define u :: rat where "u = power_int 2 (binade x - 52)"
  define m where "m = x / u"
  define M where "M = L / u"
  have eps: "0 < eps" "c * eps = 1 / 2" by (simp_all add: eps_def c_def)
  have x0: "0 < x" using False assms(1,3) by (simp add: x_def zero_less_mult_iff less_le)
  have u: "0 < u" by (simp add: u_def zero_less_power_int)
  have fl: "double_round x = of_int (round_half_even m) * u"
    using x0 by (simp add: double_round_def u_def m_def Let_def)
  have "power_int 2 (binade x) \<le> x"
    using binade_lower[of x] x0 by simp
  moreover have "power_int (2::rat) (binade x) = c * u"
    by (simp add: u_def c_def power_int_diff)
  ultimately have mc: "c \<le> m"
    using u by (simp add: m_def le_divide_eq)
  have M0: "0 < M" using assms(3) u by (simp add: M_def)
  have "x \<le> L * (1 - eps)"
    using assms(2,3) by (simp add: x_def eps_def mult.commute mult_left_mono)
  then have "x / u \<le> L * (1 - eps) / u"
    using u by (simp add: divide_right_mono)
  also have "L * (1 - eps) / u = M - M * eps"
    by (simp add: M_def algebra_simps diff_divide_distrib)
  finally have mM: "m \<le> M - M * eps"
    by (simp add: m_def)
  have "0 < M * eps" using M0 eps(1) by simp
  then have "c < M" using mc mM by linarith
  then have "c * eps < M * eps" using eps(1) by (rule mult_strict_right_mono)
  then have "m + 1 / 2 < M" using mM eps(2) by linarith
  then have "of_int (round_half_even m) < M"
    using round_half_even_upper[of m] by linarith
  then have "of_int (round_half_even m) * u < M * u"
    using u by (rule mult_strict_right_mono)
  also have "M * u = L" using u by (simp add: M_def)
  finally have "double_round x < L" by (simp only: fl)
  then show ?thesis by (simp only: x_def)
qed

lemma randomTipIndex_in_range:
  assumes "0 \<le> r" and "r \<le> 1 - 1 / 2 ^ 53" and "tips this \<noteq> []"
  shows "0 \<le> randomTipIndex this r \<and> randomTipIndex this r < int (length (tips this))"
proof -
  define L :: rat where "L = of_nat (length (tips this))"
  have L: "0 < L" using assms(3) by (simp add: L_def)
  have "0 \<le> double_round (r * L)"
    using assms(1) L by (intro double_round_nonneg) simp
  then have lo: "0 \<le> \<lfloor>double_round (r * L)\<rfloor>" by simp
  have "double_round (r * L) < of_int (int (length (tips this)))"
    using double_round_below[OF assms(1,2) L] by (simp add: L_def)
  then have "\<lfloor>double_round (r * L)\<rfloor> < int (length (tips this))"
    by (simp only: floor_less_iff)
  with lo show ?thesis
    by (simp add: randomTipIndex_def Math_floor_def double_mul_def L_def)
qed

lemma randomTipIndex_interval:
  assumes "j < length (tips this)"
    and "of_nat j / of_nat (length (tips this)) + 1 / 2 ^ 53 \<le> r"
    and "r \<le> (of_nat j + 1) / of_nat (length (tips this)) - 1 / 2 ^ 53"
  shows "randomTipIndex this r = int j"
proof -
  define eps :: rat where "eps = 1 / 2 ^ 53"
  define L :: rat where "L = of_nat (length (tips this))"
  define k :: rat where "k = of_nat j"
  define x where "x = r * L"
  have eps: "0 < eps" by (simp add: eps_def)
  have "0 < length (tips this)" using assms(1) by linarith
  then have L: "0 < L" by (simp only: L_def of_nat_0_less_iff)
  have kL: "k + 1 \<le> L" 
  proof -
    have "Suc j \<le> length (tips this)" using assms(1) by simp
    then have "(of_nat (Suc j) :: rat) \<le> of_nat (length (tips this))"
      by (simp only: of_nat_le_iff)
    then show ?thesis by (simp add: k_def L_def)
  qed
  have k0: "0 \<le> k" by (simp add: k_def)
  have "(k / L + eps) * L \<le> r * L"
    using assms(2) L by (intro mult_right_mono) (simp_all add: k_def L_def eps_def)
  moreover have "(k / L + eps) * L = k + L * eps"
    using L by (simp add: algebra_simps)
  ultimately have lo: "k + L * eps \<le> x" by (simp add: x_def)
  have "r * L \<le> ((k + 1) / L - eps) * L"
    using assms(3) L by (intro mult_right_mono) (simp_all add: k_def L_def eps_def)
  moreover have "((k + 1) / L - eps) * L = k + 1 - L * eps"
    using L by (simp add: field_simps)
  ultimately have hi: "x \<le> k + 1 - L * eps" by (simp add: x_def)
  have Le: "0 < L * eps" using L eps by simp
  have x0: "0 \<le> x" using lo k0 Le by linarith
  have xL: "x < L" using hi kL Le by linarith
  have "\<bar>double_round x - x\<bar> \<le> \<bar>x\<bar> * eps"
    using double_round_error[of x] by (simp add: eps_def)
  then have err: "\<bar>double_round x - x\<bar> \<le> x * eps" using x0 by simp
  have "x * eps < L * eps" using xL eps by (rule mult_strict_right_mono)
  with err lo hi have "k \<le> double_round x" "double_round x < k + 1"
    by (simp_all only: abs_le_iff, linarith+)
  then have "of_int (int j) \<le> double_round x" "double_round x < of_int (int j) + 1"
    by (simp_all add: k_def)
  then have "\<lfloor>double_round x\<rfloor> = int j"
    by (simp only: floor_unique)
  then show ?thesis
    by (simp add: randomTipIndex_def Math_floor_def double_mul_def x_def L_def)
qed

subsection \<open>The percentage written before a step\<close>

text \<open>
  Claim C1, as stated, fails: in the run of three steps on the controller of the main
  script, the width and the percentage written before the third step (index 2) are 67,
  while the floor of \<open>100 * 2 / 3\<close> is 66. The code rounds to the nearest integer.
\<close>

theorem three_steps_percent_counterexample:
  "trace (world_of (run asyncLoadController [log_step ''A'', log_step ''B'', log_step ''C'']
      None fresh_page)) =
     [SetInterval 1 10000, TipsText ''In some levels, you can jump using the spacebar.'',
      ScreenShow,
      LabelText ''A'', BarWidth 0, PctText 0, Invoke 0,
      LabelText ''B'', BarWidth 33, PctText 33, Invoke 1,
      LabelText ''C'', BarWidth 67, PctText 67, Invoke 2,
      PctText 100, BarWidth 100, ScreenHide, TipsText '''', ClearInterval 1] \<and>
   \<lfloor>100 * 2 / (3 :: rat)\<rfloor> = 66"
  by code_simp

text \<open>
  Claim C1, amended. In every run in which step \<open>i\<close> of \<open>n\<close> is reached, the events
  immediately before the call of its work are the writes of its label, of the width and of
  the percentage, and the value of both is
  \<^verbatim>\<open>Math.round((100 / n) * i)\<close> in double arithmetic. It is the integer nearest to
  \<open>100 * i / n\<close>, up to the rounding of the two double operations: it differs from
  \<open>100 * i / n\<close> by at most \<open>1/2 + 1/2^44\<close>, so it is the floor of \<open>100 * i / n\<close> or the
  floor plus one. For \<open>n = 3\<close> the values are 0, 33 and 67.
\<close>

theorem percent_written_before_step:
  assumes "sinks_present this" and "i < length funcList"
    and "call_all (take i (map op_func funcList)) (app w) = Return v u"
  shows "(\<exists>after.
            trace (world_of (run this funcList callback w)) =
              trace w @ start_events this w @
              concat (map (step_events funcList) [0..<i]) @
              [LabelText (op_text (funcList ! i)),
               BarWidth (percent (length funcList) i),
               PctText (percent (length funcList) i),
               Invoke i] @ after) \<and>
         \<bar>rat_of_int (percent (length funcList) i) -
            100 * of_nat i / of_nat (length funcList)\<bar> \<le> 1 / 2 + 1 / 2 ^ 44 \<and>
         (100 * int i) div int (length funcList) \<le> percent (length funcList) i \<and>
         percent (length funcList) i \<le> (100 * int i) div int (length funcList) + 1 \<and>
         map (percent 3) [0, 1, 2] = [0, 33, 67]"
proof -
  have n: "0 < length funcList" using assms(2) by linarith
  have "map (percent 3) [0, 1, 2] = [0, 33, 67]" by code_simp
  with run_trace_before_step[OF assms] percent_near[OF n assms(2)] percent_floor_bounds[OF n assms(2)]
  show ?thesis by blast
qed

theorem percent_written_before_step_witness:
  "sinks_present asyncLoadController \<and>
   (2::nat) < length [log_step ''A'', log_step ''B'', log_step ''C''] \<and>
   call_all (take 2 (map op_func [log_step ''A'', log_step ''B'', log_step ''C'']))
     (app fresh_page) = Return Undefined [''A'', ''B''] \<and>
   (\<exists>after.
      trace (world_of (run asyncLoadController [log_step ''A'', log_step ''B'', log_step ''C'']
        (Some done_callback) fresh_page)) =
        [SetInterval 1 10000, TipsText ''In some levels, you can jump using the spacebar.'',
         ScreenShow,
         LabelText ''A'', BarWidth 0, PctText 0, Invoke 0,
         LabelText ''B'', BarWidth 33, PctText 33, Invoke 1,
         LabelText ''C'', BarWidth 67, PctText 67, Invoke 2] @ after) \<and>
   (100 * int 2) div int 3 \<le> percent 3 2 \<and> percent 3 2 \<le> (100 * int 2) div int 3 + 1"
proof -
  let ?fl = "[log_step ''A'', log_step ''B'', log_step ''C'']"
  have h1: "sinks_present asyncLoadController"
    by (simp add: sinks_present_def asyncLoadController_def)
  have h2: "(2::nat) < length ?fl" by simp
  have h3: "call_all (take 2 (map op_func ?fl)) (app fresh_page) = Return Undefined [''A'', ''B'']"
    by (simp add: log_step_def fresh_page_def numeral_2_eq_2)
  have len: "length ?fl = 3" by simp
  have p: "percent 3 0 = 0" "percent 3 (Suc 0) = 33" "percent 3 2 = 67" by code_simp+
  have s: "start_events asyncLoadController fresh_page =
      [SetInterval 1 10000, TipsText ''In some levels, you can jump using the spacebar.'', ScreenShow]"
    by (simp add: start_events_def rotating_def asyncLoadController_def fresh_page_def)
  have t: "concat (map (step_events ?fl) [0..<2]) =
      [LabelText ''A'', BarWidth 0, PctText 0, Invoke 0,
       LabelText ''B'', BarWidth 33, PctText 33, Invoke 1]"
    unfolding step_events_def len by (simp add: p log_step_def numeral_2_eq_2)
  have c: "op_text (?fl ! 2) = ''C''" by (simp add: log_step_def numeral_2_eq_2)
  from percent_written_before_step[OF h1 h2 h3, of "Some done_callback"]
  have "(\<exists>after.
      trace (world_of (run asyncLoadController ?fl (Some done_callback) fresh_page)) =
        trace fresh_page @ start_events asyncLoadController fresh_page @
        concat (map (step_events ?fl) [0..<2]) @
        [LabelText (op_text (?fl ! 2)), BarWidth (percent (length ?fl) 2),
         PctText (percent (length ?fl) 2), Invoke 2] @ after)"
    and b: "(100 * int 2) div int (length ?fl) \<le> percent (length ?fl) 2"
      "percent (length ?fl) 2 \<le> (100 * int 2) div int (length ?fl) + 1"
    by blast+
  then have "(\<exists>after.
      trace (world_of (run asyncLoadController ?fl (Some done_callback) fresh_page)) =
        [SetInterval 1 10000, TipsText ''In some levels, you can jump using the spacebar.'',
         ScreenShow,
         LabelText ''A'', BarWidth 0, PctText 0, Invoke 0,
         LabelText ''B'', BarWidth 33, PctText 33, Invoke 1,
         LabelText ''C'', BarWidth 67, PctText 67, Invoke 2] @ after)"
    unfolding s t c len p by (simp add: fresh_page_def)
  with h1 h2 h3 b show ?thesis unfolding len by simp
qed

subsection \<open>Order of the calls\<close>

text \<open>
  Claim C2, as stated, fails: it speaks of every list of steps passed to
  \<^verbatim>\<open>initLoadOperation\<close>, but on the controller of the main script without its percentage
  sink (a sink that the constructor documents as required) the reaction of the first of two
  steps throws after it has written the label and the width: no work function is called,
  the application state is untouched and the completion callback is not called.
\<close>

theorem percentage_absent_no_call_counterexample:
  "world_of (run (asyncLoadController\<lparr>loadingPercentage := None\<rparr>)
     [log_step ''A'', log_step ''B''] (Some done_callback) fresh_page) =
   \<lparr>trace = [SetInterval 1 10000,
             TipsText ''In some levels, you can jump using the spacebar.'',
             ScreenShow, LabelText ''A'', BarWidth 0],
    timers = [1], last_timer = 1, app = []\<rparr>"
  by code_simp

text \<open>
  Claim C2, amended. On a controller whose loading screen, percentage and progress bar sinks
  are present, and whose label sink is present when there is a step, a run of \<open>n \<ge> 0\<close>
  steps whose work functions all return calls the work of step \<open>0\<close>, \<open>1\<close>, ..., \<open>n - 1\<close> in
  this order, each once, and then the completion callback, once, when one is given. No
  other call of caller code happens. Each work function starts on the application state
  that the previous one returned, and the callback on the state that the last one returned:
  the application state after the run is that of calling the work functions alone in
  submission order.
\<close>

theorem works_called_once_in_order_then_callback:
  assumes "loadingScreen this \<noteq> None" and "loadingPercentage this \<noteq> None"
    and "loadingProgressBar this \<noteq> None"
    and "funcList \<noteq> [] \<longrightarrow> loadingText this \<noteq> None"
    and "call_all (map op_func funcList) (app w) = Return v u"
  shows "filter is_call (trace (world_of (run this funcList callback w))) =
           filter is_call (trace w) @ map Invoke [0..<length funcList] @
           (case callback of None \<Rightarrow> [] | Some cb \<Rightarrow> [Callback]) \<and>
         app (world_of (run this funcList callback w)) =
           (case callback of None \<Rightarrow> u | Some cb \<Rightarrow> app_of (cb u))"
  by (simp add: run_Return_world_steps[OF assms] finished_def stepped_def started_def
      calls_of_steps calls_of_start calls_of_final del: upt_Suc split: option.split)

theorem works_called_once_in_order_then_callback_witness:
  "loadingScreen asyncLoadController \<noteq> None \<and>
   loadingPercentage asyncLoadController \<noteq> None \<and>
   loadingProgressBar asyncLoadController \<noteq> None \<and>
   [log_step ''A'', log_step ''B'', log_step ''C''] \<noteq> [] \<and>
   loadingText asyncLoadController \<noteq> None \<and>
   call_all (map op_func [log_step ''A'', log_step ''B'', log_step ''C'']) (app fresh_page) =
     Return Undefined [''A'', ''B'', ''C''] \<and>
   filter is_call (trace (world_of (run asyncLoadController
       [log_step ''A'', log_step ''B'', log_step ''C''] (Some done_callback) fresh_page))) =
     [Invoke 0, Invoke 1, Invoke 2, Callback] \<and>
   app (world_of (run asyncLoadController
       [log_step ''A'', log_step ''B'', log_step ''C''] (Some done_callback) fresh_page)) =
     [''A'', ''B'', ''C'', ''done'']"
proof -
  have h1: "loadingScreen asyncLoadController \<noteq> None"
    and h2: "loadingPercentage asyncLoadController \<noteq> None"
    and h3: "loadingProgressBar asyncLoadController \<noteq> None"
    and h4: "loadingText asyncLoadController \<noteq> None"
    by (simp_all add: asyncLoadController_def)
  have h5: "[log_step ''A'', log_step ''B'', log_step ''C''] \<noteq> [] \<longrightarrow>
      loadingText asyncLoadController \<noteq> None"
    using h4 by simp
  have h6: "call_all (map op_func [log_step ''A'', log_step ''B'', log_step ''C''])
              (app fresh_page) = Return Undefined [''A'', ''B'', ''C'']"
    by (simp add: log_step_def fresh_page_def)
  have h7: "[0..<3] = [0, 1, 2]"
    by (simp add: upt_rec)
  show ?thesis
    using h1 h2 h3 h4 h6
      works_called_once_in_order_then_callback[OF h1 h2 h3 h5 h6, of "Some done_callback"]
    by (simp add: h7 done_callback_def fresh_page_def)
qed

subsection \<open>A work function that throws\<close>

text \<open>
  Claim C3. When the work of step \<open>k\<close> throws after the steps before it have returned,
  nothing catches the error: the chain is rejected with it. The trace of the run ends with
  the label, width and percentage written for step \<open>k\<close> and the call of its work; the
  calls of caller code are those of steps \<open>0\<close> to \<open>k\<close>, so no later work function and no
  completion callback is called, and no sink is written after the values of step \<open>k\<close>.
  The timers alive after the run are those alive before it and, when the tip rotation was
  started, the timer of this run: it is left running.
\<close>

theorem work_failure_stops_run:
  assumes "sinks_present this" and "k < length funcList"
    and "call_all (take k (map op_func funcList)) (app w) = Return v u"
    and "op_func (funcList ! k) u = Throw e u'"
  shows "\<exists>w'. run this funcList callback w = Rejected e w' \<and>
           trace w' = trace w @ start_events this w @
                        concat (map (step_events funcList) [0..<Suc k]) \<and>
           filter is_call (trace w') = filter is_call (trace w) @ map Invoke [0..<Suc k] \<and>
           app w' = u' \<and>
           timers w' = timers w @ (if rotating this then [Suc (last_timer w)] else [])"
  by (simp add: run_Throw[OF assms] stepped_def started_def calls_of_steps calls_of_start
      del: upt_Suc)

theorem work_failure_stops_run_witness:
  "sinks_present asyncLoadController \<and> (1::nat) < length [log_step ''A'', failing_step ''B'', log_step ''C''] \<and>
   call_all (take 1 (map op_func [log_step ''A'', failing_step ''B'', log_step ''C''])) (app fresh_page) =
     Return Undefined [''A''] \<and>
   op_func ([log_step ''A'', failing_step ''B'', log_step ''C''] ! 1) [''A''] = Throw (Error ''B'') [''A''] \<and>
   (\<exists>w'. run asyncLoadController [log_step ''A'', failing_step ''B'', log_step ''C'']
            (Some done_callback) fresh_page = Rejected (Error ''B'') w' \<and>
      trace w' = [SetInterval 1 10000, TipsText ''In some levels, you can jump using the spacebar.'',
                  ScreenShow, LabelText ''A'', BarWidth 0, PctText 0, Invoke 0,
                  LabelText ''B'', BarWidth 33, PctText 33, Invoke 1] \<and>
      app w' = [''A''] \<and> timers w' = [1])"
proof -
  let ?fl = "[log_step ''A'', failing_step ''B'', log_step ''C'']"
  have h1: "sinks_present asyncLoadController"
    by (simp add: sinks_present_def asyncLoadController_def)
  have h2: "(1::nat) < length ?fl" by simp
  have h3: "call_all (take 1 (map op_func ?fl)) (app fresh_page) = Return Undefined [''A'']"
    by (simp add: log_step_def fresh_page_def)
  have h4: "op_func (?fl ! 1) [''A''] = Throw (Error ''B'') [''A'']"
    by (simp add: failing_step_def)
  have p0: "percent (Suc (Suc (Suc 0))) 0 = 0" by code_simp
  have p1: "percent (Suc (Suc (Suc 0))) (Suc 0) = 33" by code_simp
  have r: "rotating asyncLoadController" by (simp add: rotating_def asyncLoadController_def)
  have s: "start_events asyncLoadController fresh_page =
      [SetInterval 1 10000, TipsText ''In some levels, you can jump using the spacebar.'', ScreenShow]"
    by (simp add: start_events_def r) (simp add: asyncLoadController_def fresh_page_def)
  have t: "concat (map (step_events ?fl) [0..<Suc 1]) =
      [LabelText ''A'', BarWidth 0, PctText 0, Invoke 0,
       LabelText ''B'', BarWidth 33, PctText 33, Invoke 1]"
    by (simp add: step_events_def p0 p1 log_step_def failing_step_def)
  from work_failure_stops_run[OF h1 h2 h3 h4, of "Some done_callback"]
  obtain w' where w': "run asyncLoadController ?fl (Some done_callback) fresh_page = Rejected (Error ''B'') w'"
      "trace w' = trace fresh_page @ start_events asyncLoadController fresh_page @
                        concat (map (step_events ?fl) [0..<Suc 1])"
      "app w' = [''A'']"
      "timers w' = timers fresh_page @ (if rotating asyncLoadController then [Suc (last_timer fresh_page)] else [])"
    by blast
  have "trace w' = [SetInterval 1 10000, TipsText ''In some levels, you can jump using the spacebar.'',
                  ScreenShow, LabelText ''A'', BarWidth 0, PctText 0, Invoke 0,
                  LabelText ''B'', BarWidth 33, PctText 33, Invoke 1]"
    using w'(2) by (simp only: s t) (simp add: fresh_page_def)
  moreover have "timers w' = [1]" using w'(4) r by (simp add: fresh_page_def)
  ultimately show ?thesis using h1 h2 h3 h4 w'(1,3) by blast
qed

subsection \<open>A run without steps\<close>

text \<open>
  Claim C6, as stated, fails: on the controller of the main script without its percentage
  sink (documented as required) the run of an empty list is rejected with a
  \<^verbatim>\<open>TypeError\<close> by the first statement of the final reaction; nothing is set to 100 and
  the completion callback does not fire.
\<close>

theorem zero_steps_percentage_absent_counterexample:
  "run (asyncLoadController\<lparr>loadingPercentage := None\<rparr>) [] (Some done_callback) fresh_page =
   Rejected (TypeError ''loadingPercentage'')
     \<lparr>trace = [SetInterval 1 10000,
               TipsText ''In some levels, you can jump using the spacebar.'',
               ScreenShow],
      timers = [1], last_timer = 1, app = []\<rparr>"
  by code_simp

text \<open>
  Claim C6, amended. On a controller whose percentage, progress bar and loading screen sinks
  are present, a call with an empty list of steps is legal: the chain is fulfilled, unless
  the completion callback itself throws. The events of the run are, in this order: the
  start of the tip timer and the first tip (when the rotation is started) and the showing
  of the loading screen, all before the call returns; then the write of 100 to the
  percentage sink, the write of 100 to the width of the progress bar, the hiding of the
  loading screen, the clearing of the tip text (when there is a tip sink), the
  \<^verbatim>\<open>clearInterval\<close> of the tip timer (when it was started) and the call of the completion
  callback (when one is given). So there is one write to the percentage sink and one to
  the width, both 100, no write to the label sink, and one call of caller code, the
  callback.
\<close>

theorem zero_steps_run:
  assumes "loadingPercentage this \<noteq> None" and "loadingProgressBar this \<noteq> None"
    and "loadingScreen this \<noteq> None"
  shows "\<exists>new after.
           new = (if rotating this
                  then [SetInterval (Suc (last_timer w)) 10000, TipsText (tips this ! 0)]
                  else []) @
                 [ScreenShow, PctText 100, BarWidth 100, ScreenHide] @
                 (if loadingTips this \<noteq> None then [TipsText ''''] else []) @
                 (if rotating this then [ClearInterval (Suc (last_timer w))] else []) @
                 (case callback of None \<Rightarrow> [] | Some cb \<Rightarrow> [Callback]) \<and>
           after = w\<lparr>trace := trace w @ new,
                     timers := (if rotating this
                                then removeAll (Suc (last_timer w))
                                       (timers w @ [Suc (last_timer w)])
                                else timers w),
                     last_timer := (if rotating this then Suc (last_timer w)
                                    else last_timer w),
                     app := (case callback of None \<Rightarrow> app w
                             | Some cb \<Rightarrow> app_of (cb (app w)))\<rparr> \<and>
           run this [] callback w =
             (case callback of
                None \<Rightarrow> Fulfilled after
              | Some cb \<Rightarrow>
                  (case cb (app w) of
                     Return v u \<Rightarrow> Fulfilled after
                   | Throw e u \<Rightarrow> Rejected e after)) \<and>
           List.map_filter pct_write new = [100] \<and>
           List.map_filter bar_write new = [100] \<and>
           List.map_filter label_write new = [] \<and>
           filter is_call new = (case callback of None \<Rightarrow> [] | Some cb \<Rightarrow> [Callback])"
proof -
  let ?new = "(if rotating this
                  then [SetInterval (Suc (last_timer w)) 10000, TipsText (tips this ! 0)]
                  else []) @
                 [ScreenShow, PctText 100, BarWidth 100, ScreenHide] @
                 (if loadingTips this \<noteq> None then [TipsText ''''] else []) @
                 (if rotating this then [ClearInterval (Suc (last_timer w))] else []) @
                 (case callback of None \<Rightarrow> [] | Some cb \<Rightarrow> [Callback])"
  let ?after = "w\<lparr>trace := trace w @ ?new,
                     timers := (if rotating this
                                then removeAll (Suc (last_timer w))
                                       (timers w @ [Suc (last_timer w)])
                                else timers w),
                     last_timer := (if rotating this then Suc (last_timer w)
                                    else last_timer w),
                     app := (case callback of None \<Rightarrow> app w
                             | Some cb \<Rightarrow> app_of (cb (app w)))\<rparr>"
  have f: "finished this w callback (started this w) = ?after"
    using assms(3)
    by (simp add: finished_def started_def start_events_def final_events_def
        split: option.split)
  have r: "run this [] callback w =
             (case callback of
                None \<Rightarrow> Fulfilled ?after
              | Some cb \<Rightarrow>
                  (case cb (app w) of
                     Return v u \<Rightarrow> Fulfilled ?after
                   | Throw e u \<Rightarrow> Rejected e ?after))"
    using run_Nil_settled[OF assms, of callback w] unfolding f .
  have p: "List.map_filter pct_write ?new = [100]"
    "List.map_filter bar_write ?new = [100]"
    "List.map_filter label_write ?new = []"
    "filter is_call ?new = (case callback of None \<Rightarrow> [] | Some cb \<Rightarrow> [Callback])"
    by (simp_all add: List.map_filter_simps map_filter_append split: option.split)
  show ?thesis
    by (intro exI[of _ ?new] exI[of _ ?after] conjI refl r p)
qed

theorem zero_steps_run_witness:
  "loadingPercentage asyncLoadController \<noteq> None \<and>
   loadingProgressBar asyncLoadController \<noteq> None \<and>
   loadingScreen asyncLoadController \<noteq> None \<and>
   run asyncLoadController [] (Some done_callback) fresh_page =
     Fulfilled \<lparr>trace = [SetInterval 1 10000,
                          TipsText ''In some levels, you can jump using the spacebar.'',
                          ScreenShow, PctText 100, BarWidth 100, ScreenHide,
                          TipsText '''', ClearInterval 1, Callback],
                 timers = [], last_timer = 1, app = [''done'']\<rparr>"
proof -
  have h1: "loadingPercentage asyncLoadController \<noteq> None"
    and h2: "loadingProgressBar asyncLoadController \<noteq> None"
    and h3: "loadingScreen asyncLoadController \<noteq> None"
    by (simp_all add: asyncLoadController_def)
  have r: "rotating asyncLoadController" "loadingTips asyncLoadController \<noteq> None"
    "tips asyncLoadController ! 0 = ''In some levels, you can jump using the spacebar.''"
    by (simp_all add: rotating_def asyncLoadController_def)
  from zero_steps_run[OF h1 h2 h3, of fresh_page "Some done_callback"]
  have "run asyncLoadController [] (Some done_callback) fresh_page =
     Fulfilled \<lparr>trace = [SetInterval 1 10000,
                          TipsText ''In some levels, you can jump using the spacebar.'',
                          ScreenShow, PctText 100, BarWidth 100, ScreenHide,
                          TipsText '''', ClearInterval 1, Callback],
                 timers = [], last_timer = 1, app = [''done'']\<rparr>"
    by (simp add: r fresh_page_def done_callback_def)
  with h1 h2 h3 show ?thesis by (intro conjI)
qed

subsection \<open>The tip rotation\<close>

text \<open>
  Claim C7. With a tip sink: when the tip list is not empty, the call registers an
  interval timer with a period of 10000 milliseconds and then writes the first tip, both
  before it returns and so before any timer can fire; whenever that timer fires while it
  is alive, the tip sink is set to the element of the tip list at index
  \<^verbatim>\<open>Math.floor(Math.random() * length)\<close>, which lies inside the list for every double
  \<open>r\<close> in \<open>[0, 1)\<close> that \<^verbatim>\<open>Math.random()\<close> can return (the largest is \<open>1 - 1/2^53\<close>).
  The choice gives every tip the same share of the range of \<^verbatim>\<open>Math.random()\<close>: tip
  \<open>j\<close> is chosen for every \<open>r\<close> between \<open>j / length\<close> and \<open>(j + 1) / length\<close>, up to
  \<open>1/2^53\<close> at either end. When the tip list is empty the call starts no timer and
  writes no tip. The clock that fires the timer and the distribution of
  \<^verbatim>\<open>Math.random()\<close> belong to the run time and are not part of the model.
\<close>

theorem tip_rotation:
  assumes "loadingTips this \<noteq> None"
  shows "(tips this \<noteq> [] \<longrightarrow>
            trace (fst (initLoadOperation this funcList callback w)) =
              trace w @ [SetInterval (Suc (last_timer w)) 10000, TipsText (tips this ! 0)] @
              (if loadingScreen this \<noteq> None then [ScreenShow] else []) \<and>
            timers (fst (initLoadOperation this funcList callback w)) =
              timers w @ [Suc (last_timer w)]) \<and>
         (tips this \<noteq> [] \<longrightarrow> 0 \<le> r \<longrightarrow> r \<le> 1 - 1 / 2 ^ 53 \<longrightarrow> h \<in> set (timers w') \<longrightarrow>
            nat (randomTipIndex this r) < length (tips this) \<and>
            fire this h r w' = emit (TipsText (tips this ! nat (randomTipIndex this r))) w') \<and>
         (j < length (tips this) \<longrightarrow>
            of_nat j / of_nat (length (tips this)) + 1 / 2 ^ 53 \<le> r' \<longrightarrow>
            r' \<le> (of_nat j + 1) / of_nat (length (tips this)) - 1 / 2 ^ 53 \<longrightarrow>
            randomTipIndex this r' = int j) \<and>
         (tips this = [] \<longrightarrow>
            trace (fst (initLoadOperation this funcList callback w)) =
              trace w @ (if loadingScreen this \<noteq> None then [ScreenShow] else []) \<and>
            timers (fst (initLoadOperation this funcList callback w)) = timers w)"
proof (intro conjI impI)
  assume ne: "tips this \<noteq> []"
  then have r: "rotating this" using assms by (simp add: rotating_def)
  show "trace (fst (initLoadOperation this funcList callback w)) =
      trace w @ [SetInterval (Suc (last_timer w)) 10000, TipsText (tips this ! 0)] @
      (if loadingScreen this \<noteq> None then [ScreenShow] else [])"
    by (simp add: initLoadOperation_fst started_def start_events_def r)
  show "timers (fst (initLoadOperation this funcList callback w)) = timers w @ [Suc (last_timer w)]"
    by (simp add: initLoadOperation_fst started_def r)
next
  assume ne: "tips this \<noteq> []" and r: "0 \<le> r" "r \<le> 1 - 1 / 2 ^ 53" and h: "h \<in> set (timers w')"
  from randomTipIndex_in_range[OF r ne]
  have i: "0 \<le> randomTipIndex this r" "randomTipIndex this r < int (length (tips this))"
    by simp_all
  then show "nat (randomTipIndex this r) < length (tips this)" by simp
  show "fire this h r w' = emit (TipsText (tips this ! nat (randomTipIndex this r))) w'"
    using assms h i by (auto simp: fire_def tip_callback_def Let_def)
next
  assume "j < length (tips this)"
    and "of_nat j / of_nat (length (tips this)) + 1 / 2 ^ 53 \<le> r'"
    and "r' \<le> (of_nat j + 1) / of_nat (length (tips this)) - 1 / 2 ^ 53"
  then show "randomTipIndex this r' = int j"
    by (rule randomTipIndex_interval)
next
  assume e: "tips this = []"
  then have r: "\<not> rotating this" by (simp add: rotating_def)
  show "trace (fst (initLoadOperation this funcList callback w)) =
      trace w @ (if loadingScreen this \<noteq> None then [ScreenShow] else [])"
    by (simp add: initLoadOperation_fst started_def start_events_def r)
  show "timers (fst (initLoadOperation this funcList callback w)) = timers w"
    by (simp add: initLoadOperation_fst started_def r)
qed

theorem tip_rotation_witness:
  "loadingTips asyncLoadController \<noteq> None \<and> tips asyncLoadController \<noteq> [] \<and>
   (0::rat) \<le> 3 / 4 \<and> (3 / 4 :: rat) \<le> 1 - 1 / 2 ^ 53 \<and>
   1 \<in> set (timers (fst (initLoadOperation asyncLoadController [log_step ''A''] None fresh_page))) \<and>
   (1::nat) < length (tips asyncLoadController) \<and>
   rat_of_nat 1 / of_nat (length (tips asyncLoadController)) + 1 / 2 ^ 53 \<le> 3 / 4 \<and>
   (3 / 4 :: rat) \<le> (of_nat 1 + 1) / of_nat (length (tips asyncLoadController)) - 1 / 2 ^ 53 \<and>
   trace (fst (initLoadOperation asyncLoadController [log_step ''A''] None fresh_page)) =
     [SetInterval 1 10000, TipsText ''In some levels, you can jump using the spacebar.'',
      ScreenShow] \<and>
   timers (fst (initLoadOperation asyncLoadController [log_step ''A''] None fresh_page)) = [1] \<and>
   randomTipIndex asyncLoadController (3 / 4) = 1 \<and>
   fire asyncLoadController 1 (3 / 4)
     (fst (initLoadOperation asyncLoadController [log_step ''A''] None fresh_page)) =
     emit (TipsText ''Be careful not to touch the spikes!'')
       (fst (initLoadOperation asyncLoadController [log_step ''A''] None fresh_page)) \<and>
   loadingTips (asyncLoadController\<lparr>tips := []\<rparr>) \<noteq> None \<and>
   tips (asyncLoadController\<lparr>tips := []\<rparr>) = [] \<and>
   trace (fst (initLoadOperation (asyncLoadController\<lparr>tips := []\<rparr>) [log_step ''A''] None
     fresh_page)) = [ScreenShow] \<and>
   timers (fst (initLoadOperation (asyncLoadController\<lparr>tips := []\<rparr>) [log_step ''A''] None
     fresh_page)) = []"
proof -
  let ?w = "fst (initLoadOperation asyncLoadController [log_step ''A''] None fresh_page)"
  have h1: "loadingTips asyncLoadController \<noteq> None"
    and h2: "tips asyncLoadController \<noteq> []"
    and len: "length (tips asyncLoadController) = 2"
    and t1: "tips asyncLoadController ! Suc 0 = ''Be careful not to touch the spikes!''"
    and t0: "tips asyncLoadController ! 0 = ''In some levels, you can jump using the spacebar.''"
    and sc: "loadingScreen asyncLoadController \<noteq> None"
    by (simp_all add: asyncLoadController_def)
  have g1: "loadingTips (asyncLoadController\<lparr>tips := []\<rparr>) \<noteq> None"
    and g2: "tips (asyncLoadController\<lparr>tips := []\<rparr>) = []"
    and gsc: "loadingScreen (asyncLoadController\<lparr>tips := []\<rparr>) \<noteq> None"
    by (simp_all add: asyncLoadController_def)
  have r: "(0::rat) \<le> 3 / 4" "(3 / 4 :: rat) \<le> 1 - 1 / 2 ^ 53" by simp_all
  have j: "(1::nat) < length (tips asyncLoadController)"
    "rat_of_nat 1 / of_nat (length (tips asyncLoadController)) + 1 / 2 ^ 53 \<le> 3 / 4"
    "(3 / 4 :: rat) \<le> (of_nat 1 + 1) / of_nat (length (tips asyncLoadController)) - 1 / 2 ^ 53"
    by (simp_all add: len)
  note a = tip_rotation[OF h1, of "[log_step ''A'']" None fresh_page "3 / 4" 1 ?w 1 "3 / 4"]
  note b = tip_rotation[OF g1, of "[log_step ''A'']" None fresh_page 0 0 fresh_page 0 0]
  from a h2 have a1: "trace ?w = trace fresh_page @
      [SetInterval (Suc (last_timer fresh_page)) 10000, TipsText (tips asyncLoadController ! 0)] @
      (if loadingScreen asyncLoadController \<noteq> None then [ScreenShow] else [])"
    and a2: "timers ?w = timers fresh_page @ [Suc (last_timer fresh_page)]"
    by blast+
  have tr: "trace ?w = [SetInterval 1 10000,
      TipsText ''In some levels, you can jump using the spacebar.'', ScreenShow]"
    using a1 by (simp add: t0 sc fresh_page_def)
  have tm: "timers ?w = [1]" using a2 by (simp add: fresh_page_def)
  then have h: "1 \<in> set (timers ?w)" by simp
  from a j have idx: "randomTipIndex asyncLoadController (3 / 4) = 1" by simp
  from a h2 r h have "fire asyncLoadController 1 (3 / 4) ?w =
      emit (TipsText (tips asyncLoadController ! nat (randomTipIndex asyncLoadController (3 / 4)))) ?w"
    by blast
  then have f: "fire asyncLoadController 1 (3 / 4) ?w =
      emit (TipsText ''Be careful not to touch the spikes!'') ?w"
    by (simp add: idx t1)
  from b g2 have "trace (fst (initLoadOperation (asyncLoadController\<lparr>tips := []\<rparr>)
        [log_step ''A''] None fresh_page)) =
      trace fresh_page @
      (if loadingScreen (asyncLoadController\<lparr>tips := []\<rparr>) \<noteq> None then [ScreenShow] else [])"
    and "timers (fst (initLoadOperation (asyncLoadController\<lparr>tips := []\<rparr>)
        [log_step ''A''] None fresh_page)) = timers fresh_page"
    by blast+
  then have e: "trace (fst (initLoadOperation (asyncLoadController\<lparr>tips := []\<rparr>)
        [log_step ''A''] None fresh_page)) = [ScreenShow]"
    "timers (fst (initLoadOperation (asyncLoadController\<lparr>tips := []\<rparr>)
        [log_step ''A''] None fresh_page)) = []"
    using sc by (simp_all add: fresh_page_def)
  show ?thesis
    using h1 h2 r h j tr tm idx f g1 g2 e by (intro conjI)
qed

subsection \<open>The end of a successful run\<close>

text \<open>
  Claim C8. A successful run clears the tip text and its own tip timer before it calls the
  completion callback, but a timer that an earlier failed run left alive is not stopped.
  On the controller of the main script, after a first run whose only step throws and a
  second run that succeeds, the timer of the first run is still alive; when it fires, a
  tip is written to the tip sink after the completion callback of the second run has been
  called.
\<close>

theorem tip_written_after_callback:
  "trace (fire asyncLoadController 1 (3 / 4)
     (world_of (run asyncLoadController [log_step ''B''] (Some done_callback)
        (world_of (run asyncLoadController [failing_step ''A''] None fresh_page))))) =
   [SetInterval 1 10000, TipsText ''In some levels, you can jump using the spacebar.'',
    ScreenShow, LabelText ''A'', BarWidth 0, PctText 0, Invoke 0,
    SetInterval 2 10000, TipsText ''In some levels, you can jump using the spacebar.'',
    ScreenShow, LabelText ''B'', BarWidth 0, PctText 0, Invoke 0,
    PctText 100, BarWidth 100, ScreenHide, TipsText '''', ClearInterval 2, Callback,
    TipsText ''Be careful not to touch the spikes!'']"
  by code_simp

subsection \<open>What the call itself does\<close>

text \<open>
  Claim C10. The page that \<^verbatim>\<open>initLoadOperation\<close> returns to its caller is the page of the
  call with the start of the tip timer and the first tip (when the rotation is started)
  and the showing of the loading screen (when there is one) added, and nothing else: no
  label, width or percentage has been written, the application state is untouched and no
  work function has been called; all of that is left to the pending chain. The chain does
  not look at what a work function returns. When every work function hands back a promise
  that is still pending, and nothing ever settles it, the pending chain run on the returned
  page still goes through every step: on a controller with the label, progress bar and
  percentage sinks, without which no work function is called at all, the call of the work
  of a step is followed at once by the label, width and percentage of the next step and the
  call of its work, each work function starting on the application state the previous one
  left; after the call of the last one come the writes of 100 and, when there is a loading
  screen, the rest of the final reaction with the completion callback.
\<close>

theorem initLoadOperation_returns_before_steps:
  "fst (initLoadOperation this funcList callback w) =
     w\<lparr>trace := trace w @
          (if rotating this
           then [SetInterval (Suc (last_timer w)) 10000, TipsText (tips this ! 0)] else []) @
          (if loadingScreen this \<noteq> None then [ScreenShow] else []),
       timers := timers w @ (if rotating this then [Suc (last_timer w)] else []),
       last_timer := (if rotating this then Suc (last_timer w) else last_timer w)\<rparr> \<and>
   trace (fst (initLoadOperation this funcList callback w)) =
     trace w @
     (if rotating this
      then [SetInterval (Suc (last_timer w)) 10000, TipsText (tips this ! 0)] else []) @
     (if loadingScreen this \<noteq> None then [ScreenShow] else []) \<and>
   app (fst (initLoadOperation this funcList callback w)) = app w \<and>
   run this (map (returning PendingPromise) funcList) callback w = run this funcList callback w \<and>
   (loadingText this \<noteq> None \<longrightarrow> loadingProgressBar this \<noteq> None \<longrightarrow>
    loadingPercentage this \<noteq> None \<longrightarrow>
    call_all (map op_func (map (returning PendingPromise) funcList)) (app w) = Return v u \<longrightarrow>
      trace (world_of
        (snd (initLoadOperation this (map (returning PendingPromise) funcList) callback w)
           (fst (initLoadOperation this (map (returning PendingPromise) funcList) callback w)))) =
        trace (fst (initLoadOperation this (map (returning PendingPromise) funcList) callback w)) @
        concat (map (step_events (map (returning PendingPromise) funcList))
                 [0..<length funcList]) @
        [PctText 100, BarWidth 100] @
        (if loadingScreen this \<noteq> None
         then [ScreenHide] @
              (if loadingTips this \<noteq> None then [TipsText ''''] else []) @
              (if rotating this then [ClearInterval (Suc (last_timer w))] else []) @
              (case callback of None \<Rightarrow> [] | Some cb \<Rightarrow> [Callback])
         else []) \<and>
      app (world_of
        (snd (initLoadOperation this (map (returning PendingPromise) funcList) callback w)
           (fst (initLoadOperation this (map (returning PendingPromise) funcList) callback w)))) =
        (if loadingScreen this \<noteq> None
         then (case callback of None \<Rightarrow> u | Some cb \<Rightarrow> app_of (cb u)) else u))"
proof (intro conjI impI)
  show "fst (initLoadOperation this funcList callback w) =
     w\<lparr>trace := trace w @
          (if rotating this
           then [SetInterval (Suc (last_timer w)) 10000, TipsText (tips this ! 0)] else []) @
          (if loadingScreen this \<noteq> None then [ScreenShow] else []),
       timers := timers w @ (if rotating this then [Suc (last_timer w)] else []),
       last_timer := (if rotating this then Suc (last_timer w) else last_timer w)\<rparr>"
    by (simp add: initLoadOperation_fst started_def start_events_def)
  show "trace (fst (initLoadOperation this funcList callback w)) =
     trace w @
     (if rotating this
      then [SetInterval (Suc (last_timer w)) 10000, TipsText (tips this ! 0)] else []) @
     (if loadingScreen this \<noteq> None then [ScreenShow] else [])"
    by (simp add: initLoadOperation_fst started_def start_events_def)
  show "app (fst (initLoadOperation this funcList callback w)) = app w"
    by (simp add: initLoadOperation_fst started_def)
  show "run this (map (returning PendingPromise) funcList) callback w =
      run this funcList callback w"
    by (simp add: run_unfold returning_promiseSequence)
next
  let ?fl = "map (returning PendingPromise) funcList"
  let ?w' = "world_of (snd (initLoadOperation this ?fl callback w)
      (fst (initLoadOperation this ?fl callback w)))"
  assume a: "loadingText this \<noteq> None" "loadingProgressBar this \<noteq> None"
    "loadingPercentage this \<noteq> None"
    "call_all (map op_func ?fl) (app w) = Return v u"
  have "call_all (map op_func ?fl) (app (started this w)) = Return v u"
    using a(4) by (simp add: started_def)
  from promiseSequence_Return_steps[OF a(1-3) this]
  have ps: "promiseSequence this ?fl (started this w) =
      Fulfilled (stepped ?fl (length ?fl) u (started this w))"
    by (simp add: stepped_def)
  have w': "?w' = (if loadingScreen this \<noteq> None
      then finished this w callback (stepped ?fl (length ?fl) u (started this w))
      else (stepped ?fl (length ?fl) u (started this w))
             \<lparr>trace := trace (stepped ?fl (length ?fl) u (started this w)) @
                [PctText 100, BarWidth 100]\<rparr>)"
    unfolding run_is_pending_chain[symmetric]
    using a(2,3)
    by (auto simp: run_unfold promise_then_def ps final_reaction_world
        final_reaction_world_without_screen)
  show "trace ?w' =
        trace (fst (initLoadOperation this ?fl callback w)) @
        concat (map (step_events ?fl) [0..<length funcList]) @
        [PctText 100, BarWidth 100] @
        (if loadingScreen this \<noteq> None
         then [ScreenHide] @
              (if loadingTips this \<noteq> None then [TipsText ''''] else []) @
              (if rotating this then [ClearInterval (Suc (last_timer w))] else []) @
              (case callback of None \<Rightarrow> [] | Some cb \<Rightarrow> [Callback])
         else [])"
    unfolding w'
    by (simp add: initLoadOperation_fst finished_def stepped_def started_def final_events_def
        del: upt_Suc)
  show "app ?w' =
        (if loadingScreen this \<noteq> None
         then (case callback of None \<Rightarrow> u | Some cb \<Rightarrow> app_of (cb u)) else u)"
    unfolding w'
    by (simp add: finished_def stepped_def started_def split: option.split)
qed

theorem initLoadOperation_returns_before_steps_witness:
  "loadingText asyncLoadController \<noteq> None \<and>
   loadingProgressBar asyncLoadController \<noteq> None \<and>
   loadingPercentage asyncLoadController \<noteq> None \<and>
   call_all (map op_func (map (returning PendingPromise) [log_step ''A'', log_step ''B'']))
     (app fresh_page) = Return Undefined [''A'', ''B''] \<and>
   fst (initLoadOperation asyncLoadController
      (map (returning PendingPromise) [log_step ''A'', log_step ''B''])
      (Some done_callback) fresh_page) =
     \<lparr>trace = [SetInterval 1 10000,
               TipsText ''In some levels, you can jump using the spacebar.'', ScreenShow],
      timers = [1], last_timer = 1, app = []\<rparr> \<and>
   trace (world_of
     (snd (initLoadOperation asyncLoadController
             (map (returning PendingPromise) [log_step ''A'', log_step ''B''])
             (Some done_callback) fresh_page)
        (fst (initLoadOperation asyncLoadController
             (map (returning PendingPromise) [log_step ''A'', log_step ''B''])
             (Some done_callback) fresh_page)))) =
     [SetInterval 1 10000, TipsText ''In some levels, you can jump using the spacebar.'',
      ScreenShow,
      LabelText ''A'', BarWidth 0, PctText 0, Invoke 0,
      LabelText ''B'', BarWidth 50, PctText 50, Invoke 1,
      PctText 100, BarWidth 100, ScreenHide, TipsText '''', ClearInterval 1, Callback] \<and>
   app (world_of
     (snd (initLoadOperation asyncLoadController
             (map (returning PendingPromise) [log_step ''A'', log_step ''B''])
             (Some done_callback) fresh_page)
        (fst (initLoadOperation asyncLoadController
             (map (returning PendingPromise) [log_step ''A'', log_step ''B''])
             (Some done_callback) fresh_page)))) = [''A'', ''B'', ''done'']"
proof -
  let ?fl = "map (returning PendingPromise) [log_step ''A'', log_step ''B'']"
  let ?w1 = "fst (initLoadOperation asyncLoadController ?fl (Some done_callback) fresh_page)"
  let ?w2 = "world_of (snd (initLoadOperation asyncLoadController ?fl (Some done_callback)
      fresh_page) ?w1)"
  have h1: "loadingText asyncLoadController \<noteq> None"
    "loadingProgressBar asyncLoadController \<noteq> None"
    "loadingPercentage asyncLoadController \<noteq> None"
    by (simp_all add: asyncLoadController_def)
  have h2: "call_all (map op_func ?fl) (app fresh_page) = Return Undefined [''A'', ''B'']"
    by (simp add: returning_def log_step_def fresh_page_def)
  have r: "rotating asyncLoadController" "loadingTips asyncLoadController \<noteq> None"
    "loadingScreen asyncLoadController \<noteq> None"
    "tips asyncLoadController ! 0 = ''In some levels, you can jump using the spacebar.''"
    by (simp_all add: rotating_def asyncLoadController_def)
  have p: "percent (Suc (Suc 0)) 0 = 0" "percent (Suc (Suc 0)) (Suc 0) = 50"
    by code_simp+
  have s: "concat (map (step_events ?fl) [0..<length [log_step ''A'', log_step ''B'']]) =
      [LabelText ''A'', BarWidth 0, PctText 0, Invoke 0,
       LabelText ''B'', BarWidth 50, PctText 50, Invoke 1]"
    by (simp add: step_events_def p returning_def log_step_def upt_rec)
  note t = initLoadOperation_returns_before_steps
    [of asyncLoadController "[log_step ''A'', log_step ''B'']" "Some done_callback" fresh_page
      Undefined "[''A'', ''B'']"]
  note t' = initLoadOperation_returns_before_steps
    [of asyncLoadController ?fl "Some done_callback" fresh_page Undefined "[''A'', ''B'']"]
  from t' have a: "?w1 = \<lparr>trace = [SetInterval 1 10000,
               TipsText ''In some levels, you can jump using the spacebar.'', ScreenShow],
      timers = [1], last_timer = 1, app = []\<rparr>"
    by (simp add: r fresh_page_def)
  from t h1 h2 have "trace ?w2 = trace ?w1 @
        concat (map (step_events ?fl) [0..<length [log_step ''A'', log_step ''B'']]) @
        [PctText 100, BarWidth 100, ScreenHide, TipsText '''', ClearInterval 1, Callback]"
    and b: "app ?w2 = app_of (done_callback [''A'', ''B''])"
    by (simp_all add: r fresh_page_def del: upt_Suc)
  then have c: "trace ?w2 =
     [SetInterval 1 10000, TipsText ''In some levels, you can jump using the spacebar.'',
      ScreenShow,
      LabelText ''A'', BarWidth 0, PctText 0, Invoke 0,
      LabelText ''B'', BarWidth 50, PctText 50, Invoke 1,
      PctText 100, BarWidth 100, ScreenHide, TipsText '''', ClearInterval 1, Callback]"
    unfolding s a by simp
  have d: "app ?w2 = [''A'', ''B'', ''done'']"
    using b by (simp add: done_callback_def)
  show ?thesis using h1 h2 a c d by (intro conjI)
qed

subsection \<open>Sinks that are not configured\<close>

text \<open>
  Claim C4, as stated, fails: on the controller of the main script without its percentage
  sink, the reaction of the first step throws a \<^verbatim>\<open>TypeError\<close> after it has written the
  label and the width, its work function is not called, and neither is the completion
  callback.
\<close>

theorem percentage_sink_absent_counterexample:
  "run (asyncLoadController\<lparr>loadingPercentage := None\<rparr>) [log_step ''A'']
     (Some done_callback) fresh_page =
   Rejected (TypeError ''loadingPercentage'')
     \<lparr>trace = [SetInterval 1 10000,
               TipsText ''In some levels, you can jump using the spacebar.'',
               ScreenShow, LabelText ''A'', BarWidth 0],
      timers = [1], last_timer = 1, app = []\<rparr>"
  by code_simp

text \<open>
  Claim C4, amended, for the controller of the main script, which is the copy embedded
  here (an older copy of the class never writes the percentage element). The tip sink is
  optional: on a controller whose loading screen, label, percentage and progress bar sinks
  are present and whose tip sink is absent, a run whose work functions return executes
  every step and is fulfilled; it starts no timer and writes no tip. The percentage sink is
  required: without it every run is rejected with a \<^verbatim>\<open>TypeError\<close>, no work function and
  no completion callback is called and the application state is untouched; when the label
  and the progress bar are present the error is the one of the percentage sink.
\<close>

theorem tip_sink_optional:
  "(sinks_present this \<longrightarrow> loadingTips this = None \<longrightarrow>
      call_all (map op_func funcList) (app w) = Return v u \<longrightarrow> returns callback u \<longrightarrow>
      run this funcList callback w =
        Fulfilled (w\<lparr>trace := trace w @ [ScreenShow] @
                       concat (map (step_events funcList) [0..<length funcList]) @
                       [PctText 100, BarWidth 100, ScreenHide] @
                       (case callback of None \<Rightarrow> [] | Some cb \<Rightarrow> [Callback]),
                     app := (case callback of None \<Rightarrow> u | Some cb \<Rightarrow> app_of (cb u))\<rparr>)) \<and>
   (loadingPercentage this = None \<longrightarrow>
      (\<exists>name w'. run this funcList callback w = Rejected (TypeError name) w' \<and>
         filter is_call (trace w') = filter is_call (trace w) \<and> app w' = app w \<and>
         (loadingText this \<noteq> None \<longrightarrow> loadingProgressBar this \<noteq> None \<longrightarrow>
            name = ''loadingPercentage'')))"
proof (intro conjI impI)
  assume a: "sinks_present this" "loadingTips this = None"
    "call_all (map op_func funcList) (app w) = Return v u" "returns callback u"
  have r: "\<not> rotating this" using a(2) by (simp add: rotating_def)
  have s: "loadingScreen this \<noteq> None" using a(1) by (simp add: sinks_present_def)
  show "run this funcList callback w =
        Fulfilled (w\<lparr>trace := trace w @ [ScreenShow] @
                       concat (map (step_events funcList) [0..<length funcList]) @
                       [PctText 100, BarWidth 100, ScreenHide] @
                       (case callback of None \<Rightarrow> [] | Some cb \<Rightarrow> [Callback]),
                     app := (case callback of None \<Rightarrow> u | Some cb \<Rightarrow> app_of (cb u))\<rparr>)"
    by (simp add: run_Return_Fulfilled[OF a(1,3,4)] finished_def stepped_def started_def
        start_events_def final_events_def r s a(2) del: upt_Suc split: option.split)
next
  assume "loadingPercentage this = None"
  then show "\<exists>name w'. run this funcList callback w = Rejected (TypeError name) w' \<and>
         filter is_call (trace w') = filter is_call (trace w) \<and> app w' = app w \<and>
         (loadingText this \<noteq> None \<longrightarrow> loadingProgressBar this \<noteq> None \<longrightarrow>
            name = ''loadingPercentage'')"
    by (rule run_no_percentage)
qed

theorem tip_sink_optional_witness:
  "sinks_present (asyncLoadController\<lparr>loadingTips := None\<rparr>) \<and>
   loadingTips (asyncLoadController\<lparr>loadingTips := None\<rparr>) = None \<and>
   call_all (map op_func [log_step ''A'']) (app fresh_page) = Return Undefined [''A''] \<and>
   returns (Some done_callback) [''A''] \<and>
   run (asyncLoadController\<lparr>loadingTips := None\<rparr>) [log_step ''A''] (Some done_callback)
     fresh_page =
     Fulfilled \<lparr>trace = [ScreenShow, LabelText ''A'', BarWidth 0, PctText 0, Invoke 0,
                          PctText 100, BarWidth 100, ScreenHide, Callback],
                 timers = [], last_timer = 0, app = [''A'', ''done'']\<rparr> \<and>
   loadingPercentage (asyncLoadController\<lparr>loadingPercentage := None\<rparr>) = None \<and>
   loadingText (asyncLoadController\<lparr>loadingPercentage := None\<rparr>) \<noteq> None \<and>
   loadingProgressBar (asyncLoadController\<lparr>loadingPercentage := None\<rparr>) \<noteq> None \<and>
   (\<exists>w'. run (asyncLoadController\<lparr>loadingPercentage := None\<rparr>) [log_step ''A'']
            (Some done_callback) fresh_page = Rejected (TypeError ''loadingPercentage'') w' \<and>
      filter is_call (trace w') = [] \<and> app w' = [])"
proof -
  have h1: "sinks_present (asyncLoadController\<lparr>loadingTips := None\<rparr>)"
    by (simp add: sinks_present_def asyncLoadController_def)
  have h2: "loadingTips (asyncLoadController\<lparr>loadingTips := None\<rparr>) = None"
    by simp
  have h3: "call_all (map op_func [log_step ''A'']) (app fresh_page) = Return Undefined [''A'']"
    by (simp add: log_step_def fresh_page_def)
  have h4: "returns (Some done_callback) [''A'']"
    by (simp add: returns_def done_callback_def)
  have h5: "loadingPercentage (asyncLoadController\<lparr>loadingPercentage := None\<rparr>) = None"
    by simp
  have h6: "loadingText (asyncLoadController\<lparr>loadingPercentage := None\<rparr>) \<noteq> None"
    "loadingProgressBar (asyncLoadController\<lparr>loadingPercentage := None\<rparr>) \<noteq> None"
    by (simp_all add: asyncLoadController_def)
  have p: "percent (Suc 0) 0 = 0"
    by code_simp
  note a = tip_sink_optional[of "asyncLoadController\<lparr>loadingTips := None\<rparr>" "[log_step ''A'']"
      fresh_page Undefined "[''A'']" "Some done_callback"]
  note b = tip_sink_optional[of "asyncLoadController\<lparr>loadingPercentage := None\<rparr>"
      "[log_step ''A'']" fresh_page Undefined "[''A'']" "Some done_callback"]
  from a h1 h2 h3 h4 have c: "run (asyncLoadController\<lparr>loadingTips := None\<rparr>) [log_step ''A'']
      (Some done_callback) fresh_page =
     Fulfilled \<lparr>trace = [ScreenShow, LabelText ''A'', BarWidth 0, PctText 0, Invoke 0,
                          PctText 100, BarWidth 100, ScreenHide, Callback],
                 timers = [], last_timer = 0, app = [''A'', ''done'']\<rparr>"
    by (simp add: step_events_def p log_step_def done_callback_def fresh_page_def)
  from b h5 obtain name w' where
    d: "run (asyncLoadController\<lparr>loadingPercentage := None\<rparr>) [log_step ''A'']
          (Some done_callback) fresh_page = Rejected (TypeError name) w'"
      "filter is_call (trace w') = filter is_call (trace fresh_page)"
      "app w' = app fresh_page"
      "loadingText (asyncLoadController\<lparr>loadingPercentage := None\<rparr>) \<noteq> None \<longrightarrow>
       loadingProgressBar (asyncLoadController\<lparr>loadingPercentage := None\<rparr>) \<noteq> None \<longrightarrow>
       name = ''loadingPercentage''"
    by blast
  from d(4) h6 have n: "name = ''loadingPercentage''" by blast
  have "\<exists>w'. run (asyncLoadController\<lparr>loadingPercentage := None\<rparr>) [log_step ''A'']
            (Some done_callback) fresh_page = Rejected (TypeError ''loadingPercentage'') w' \<and>
      filter is_call (trace w') = [] \<and> app w' = []"
    using d(1,2,3) unfolding n by (intro exI[of _ w']) (simp add: fresh_page_def)
  with c show ?thesis using h1 h2 h3 h4 h5 h6 by (intro conjI)
qed

subsection \<open>Timers across runs\<close>

text \<open>
  Claim C5. The run clears its tip timer in the reaction at the end of the chain only, and
  that reaction is skipped when a step throws. On the controller of the main script, after
  a first run whose only step throws, the call that starts a second run returns with two
  tip timers alive, the one of the first run and its own.
\<close>

theorem second_run_after_failure_two_timers:
  "timers (fst (initLoadOperation asyncLoadController [log_step ''B''] None
     (world_of (run asyncLoadController [failing_step ''A''] None fresh_page)))) = [1, 2]"
  by code_simp

subsection \<open>The constructor\<close>

text \<open>
  Claim C9, as stated, fails: given the options of the main script without the label
  element, the constructor returns a controller, the one whose label sink is undefined,
  and raises nothing.
\<close>

theorem constructor_without_label_counterexample:
  "constructor (main_options\<lparr>opt_loadingText := None\<rparr>) =
     Inr (asyncLoadController\<lparr>loadingText := None\<rparr>)"
  by (simp add: constructor_def main_options_def asyncLoadController_def)

text \<open>
  Claim C9, amended. The constructor never raises: it returns a controller whose label sink
  is whatever the options held. When the label element is missing, the failure comes at
  first use: in a run with at least one step the reaction of the first step throws a
  \<^verbatim>\<open>TypeError\<close> before anything is written or called, and the chain is rejected in the
  world that \<^verbatim>\<open>initLoadOperation\<close> returned.
\<close>

theorem constructor_never_raises:
  "\<exists>this. constructor options = Inr this \<and>
          loadingText this = opt_loadingText options \<and>
          (opt_loadingText options = None \<longrightarrow> funcList \<noteq> [] \<longrightarrow>
             run this funcList callback w =
               Rejected (TypeError ''loadingText'')
                 (fst (initLoadOperation this funcList callback w)))"
proof -
  obtain ctl where c: "constructor options = Inr ctl"
    and l: "loadingText ctl = opt_loadingText options"
    by (simp add: constructor_def)
  have late: "run ctl funcList callback w =
          Rejected (TypeError ''loadingText'') (fst (initLoadOperation ctl funcList callback w))"
    if n: "opt_loadingText options = None" and ne: "funcList \<noteq> []"
  proof -
    obtain f fs where fl: "funcList = f # fs" using ne by (cases funcList) auto
    have up: "[0..<length (f # fs)] = 0 # [Suc 0..<Suc 0 + length fs]"
      using upt_cons_shift[of 0 "length fs"] by (simp del: upt_Suc)
    have "promiseSequence ctl funcList (started ctl w) =
            Rejected (TypeError ''loadingText'') (started ctl w)"
      unfolding promiseSequence_chain fl up
      by (simp add: step_reaction_def l n del: upt_Suc)
    then show ?thesis
      by (simp add: run_unfold promise_then_def initLoadOperation_fst)
  qed
  show ?thesis
    using c l late by (intro exI[of _ ctl]) simp
qed

theorem constructor_never_raises_witness:
  "opt_loadingText (main_options\<lparr>opt_loadingText := None\<rparr>) = None \<and>
   [log_step ''A''] \<noteq> [] \<and>
   (\<exists>this. constructor (main_options\<lparr>opt_loadingText := None\<rparr>) = Inr this \<and>
      loadingText this = None \<and>
      run this [log_step ''A''] (Some done_callback) fresh_page =
        Rejected (TypeError ''loadingText'')
          (fst (initLoadOperation this [log_step ''A''] (Some done_callback) fresh_page)))"
  using constructor_never_raises
    [of "main_options\<lparr>opt_loadingText := None\<rparr>" "[log_step ''A'']" "Some done_callback"
      fresh_page]
  by simp

end
